theory Spec2Isabelle
  imports Main
begin

section \<open>JavaScript values shared by the limiters\<close>

text \<open>
  Numbers of the TypeScript and Lua code (timestamps in milliseconds, token counts,
  counters, limits) are modelled as unbounded integers: every number the limiters
  are configured with in the repository is an integer, and on integers the Lua
  expression \<^verbatim>\<open>math.floor(a / b)\<close> is \<open>a div b\<close> whenever \<open>b \<noteq> 0\<close>.
  Division by a zero interval (infinity or NaN in Lua and JavaScript) is outside
  the model: the theorems that depend on it assume a positive interval.
\<close>

text \<open>
  An exception value: its class. \<open>Error\<close> is \<^verbatim>\<open>new Error(msg)\<close>,
  \<open>RateLimitExceededError\<close> the class of the repository, \<open>ReplyError\<close> the
  class the Redis client uses for an error reply of the server.
\<close>

datatype js_error =
    Error string
  | RateLimitExceededError string
  | ReplyError string

text \<open>The \<^verbatim>\<open>name\<close> property of an exception value.\<close>

fun error_name :: "js_error \<Rightarrow> string" where
  "error_name (Error m) = ''Error''"
| "error_name (RateLimitExceededError m) = ''RateLimitExceededError''"
| "error_name (ReplyError m) = ''ReplyError''"

fun error_message :: "js_error \<Rightarrow> string" where
  "error_message (Error m) = m"
| "error_message (RateLimitExceededError m) = m"
| "error_message (ReplyError m) = m"

text \<open>\<^verbatim>\<open>error instanceof RateLimitExceededError\<close>\<close>

fun instanceof_RateLimitExceededError :: "js_error \<Rightarrow> bool" where
  "instanceof_RateLimitExceededError (RateLimitExceededError m) = True"
| "instanceof_RateLimitExceededError e = False"

text \<open>
  The decimal text of an integer, as a template literal \<^verbatim>\<open>`${n}`\<close> renders it.
\<close>

definition digit_text :: "nat \<Rightarrow> string" where
  "digit_text d = [''0123456789'' ! d]"

fun nat_text :: "nat \<Rightarrow> string" where
  "nat_text n = (if 10 \<le> n then nat_text (n div 10) @ digit_text (n mod 10) else digit_text n)"

declare nat_text.simps [simp del]

definition number_text :: "int \<Rightarrow> string" where
  "number_text x = (if 0 \<le> x then nat_text (nat x) else CHR ''-'' # nat_text (nat (- x)))"

text \<open>The interface \<^verbatim>\<open>RateLimiterResult\<close>.\<close>

record rate_limiter_result =
  success :: bool
  remaining :: int
  reset :: int
  limit :: int
  name :: string
  metadata :: "int option"

section \<open>The Redis store\<close>

text \<open>
  A key holds a string (here always the decimal text of an integer counter) or a
  hash, kept as its fields in insertion order, which is the order \<^verbatim>\<open>HGETALL\<close>
  replies in for the small hashes the limiters write. Beside the value a key has its
  time to live in milliseconds, when one was set.
\<close>

datatype redis_value =
    RString int
  | RHash "(string \<times> int) list"

type_synonym redis_db = "string \<Rightarrow> (redis_value \<times> int option) option"

definition WRONGTYPE :: js_error where
  "WRONGTYPE = ReplyError ''WRONGTYPE Operation against a key holding the wrong kind of value''"

definition redis_get :: "redis_db \<Rightarrow> string \<Rightarrow> js_error + int option" where
  "redis_get d key =
     (case d key of
        None \<Rightarrow> Inr None
      | Some (RString n, t) \<Rightarrow> Inr (Some n)
      | Some (RHash h, t) \<Rightarrow> Inl WRONGTYPE)"

text \<open>\<^verbatim>\<open>SET key value PX ms\<close>: a time to live that is not positive is refused.\<close>

definition redis_set_px :: "redis_db \<Rightarrow> string \<Rightarrow> int \<Rightarrow> int \<Rightarrow> js_error + redis_db" where
  "redis_set_px d key v ms =
     (if ms \<le> 0 then Inl (ReplyError ''ERR invalid expire time in set command'')
      else Inr (d(key \<mapsto> (RString v, Some ms))))"

definition redis_incr :: "redis_db \<Rightarrow> string \<Rightarrow> js_error + (int \<times> redis_db)" where
  "redis_incr d key =
     (case d key of
        None \<Rightarrow> Inr (1, d(key \<mapsto> (RString 1, None)))
      | Some (RString n, t) \<Rightarrow> Inr (n + 1, d(key \<mapsto> (RString (n + 1), t)))
      | Some (RHash h, t) \<Rightarrow> Inl WRONGTYPE)"

definition redis_decr :: "redis_db \<Rightarrow> string \<Rightarrow> js_error + (int \<times> redis_db)" where
  "redis_decr d key =
     (case d key of
        None \<Rightarrow> Inr (- 1, d(key \<mapsto> (RString (- 1), None)))
      | Some (RString n, t) \<Rightarrow> Inr (n - 1, d(key \<mapsto> (RString (n - 1), t)))
      | Some (RHash h, t) \<Rightarrow> Inl WRONGTYPE)"

definition redis_del :: "redis_db \<Rightarrow> string \<Rightarrow> int \<times> redis_db" where
  "redis_del d key = (if d key = None then 0 else 1, d(key := None))"

text \<open>\<^verbatim>\<open>PEXPIRE key ms\<close>: a time to live that is not positive deletes the key.\<close>

definition redis_pexpire :: "redis_db \<Rightarrow> string \<Rightarrow> int \<Rightarrow> int \<times> redis_db" where
  "redis_pexpire d key ms =
     (case d key of
        None \<Rightarrow> (0, d)
      | Some (v, t) \<Rightarrow> if ms \<le> 0 then (1, d(key := None)) else (1, d(key \<mapsto> (v, Some ms))))"

definition redis_hgetall :: "redis_db \<Rightarrow> string \<Rightarrow> js_error + (string \<times> int) list" where
  "redis_hgetall d key =
     (case d key of
        None \<Rightarrow> Inr []
      | Some (RHash h, t) \<Rightarrow> Inr h
      | Some (RString n, t) \<Rightarrow> Inl WRONGTYPE)"

text \<open>Setting one field of a hash: in place when the field exists, appended otherwise.\<close>

fun hash_set :: "string \<Rightarrow> int \<Rightarrow> (string \<times> int) list \<Rightarrow> (string \<times> int) list" where
  "hash_set f v [] = [(f, v)]"
| "hash_set f v ((g, w) # h) = (if g = f then (f, v) # h else (g, w) # hash_set f v h)"

text \<open>\<^verbatim>\<open>HMSET key f1 v1 f2 v2\<close>, the only form the scripts use.\<close>

definition redis_hmset ::
  "redis_db \<Rightarrow> string \<Rightarrow> string \<Rightarrow> int \<Rightarrow> string \<Rightarrow> int \<Rightarrow> js_error + redis_db" where
  "redis_hmset d key f1 v1 f2 v2 =
     (case d key of
        None \<Rightarrow> Inr (d(key \<mapsto> (RHash (hash_set f2 v2 (hash_set f1 v1 [])), None)))
      | Some (RHash h, t) \<Rightarrow> Inr (d(key \<mapsto> (RHash (hash_set f2 v2 (hash_set f1 v1 h)), t)))
      | Some (RString n, t) \<Rightarrow> Inl WRONGTYPE)"

text \<open>
  The client: the database it is connected to, and the failure of the adapter when it
  cannot complete a command (connection closed, timeout). A script runs as one step;
  a script that raises has written nothing, since in every script of the repository
  the calls that can raise come before the first write.
\<close>

record redis =
  fault :: "js_error option"
  db :: redis_db

definition redis_eval ::
  "(redis_db \<Rightarrow> js_error + ('r \<times> redis_db)) \<Rightarrow> redis \<Rightarrow> (js_error + 'r) \<times> redis" where
  "redis_eval script r =
     (case fault r of
        Some e \<Rightarrow> (Inl e, r)
      | None \<Rightarrow>
          (case script (db r) of
             Inl e \<Rightarrow> (Inl e, r)
           | Inr (reply, d) \<Rightarrow> (Inr reply, r\<lparr>db := d\<rparr>)))"

text \<open>\<^verbatim>\<open>await this.redis.del(key)\<close>\<close>

definition client_del :: "string \<Rightarrow> redis \<Rightarrow> (js_error + int) \<times> redis" where
  "client_del key r =
     (case fault r of
        Some e \<Rightarrow> (Inl e, r)
      | None \<Rightarrow> (case redis_del (db r) key of (n, d) \<Rightarrow> (Inr n, r\<lparr>db := d\<rparr>)))"

text \<open>
  A Lua boolean in a script's reply: \<^verbatim>\<open>true\<close> arrives as the integer 1,
  \<^verbatim>\<open>false\<close> as null.
\<close>

definition lua_bool_reply :: "bool \<Rightarrow> int option" where
  "lua_bool_reply b = (if b then Some 1 else None)"

section \<open>FixedWindowStrategy\<close>

record fixedWindow =
  fw_maxRequests :: int
  fw_windowMs :: int
  fw_prefix :: string

text \<open>
  \<^verbatim>\<open>getKey\<close>; \<open>now\<close> is the value of \<^verbatim>\<open>Date.now()\<close>, taken to be the same at
  every reading within one call.
\<close>

definition fixedWindow_getKey :: "fixedWindow \<Rightarrow> int \<Rightarrow> string \<Rightarrow> string" where
  "fixedWindow_getKey cfg now identifier =
     (let window = now div fw_windowMs cfg
      in fw_prefix cfg @ ''/fx/{'' @ identifier @ ''}/'' @ number_text window)"

definition fixedWindow_script ::
  "string \<Rightarrow> int \<Rightarrow> int \<Rightarrow> redis_db \<Rightarrow> js_error + ((int option \<times> int \<times> int) \<times> redis_db)" where
  "fixedWindow_script key lim window d =
     (case redis_incr d key of
        Inl e \<Rightarrow> Inl e
      | Inr (count, d1) \<Rightarrow>
          (let d2 = (if count = 1 then snd (redis_pexpire d1 key window) else d1)
           in Inr ((lua_bool_reply (count \<le> lim), lim - count, window), d2)))"

definition fixedWindow_isAllowed ::
  "fixedWindow \<Rightarrow> int \<Rightarrow> string \<Rightarrow> redis \<Rightarrow> (js_error + rate_limiter_result) \<times> redis" where
  "fixedWindow_isAllowed cfg now identifier r =
     (let key = fixedWindow_getKey cfg now identifier
      in case redis_eval (fixedWindow_script key (fw_maxRequests cfg) (fw_windowMs cfg)) r of
           (Inl e, r1) \<Rightarrow> (Inl e, r1)
         | (Inr (ok, rem, w), r1) \<Rightarrow>
             (Inr \<lparr>success = (ok = Some 1),
                   remaining = rem,
                   reset = now div 1000 + fw_windowMs cfg div 1000,
                   limit = fw_maxRequests cfg,
                   name = ''FixedWindowStrategy'',
                   metadata = None\<rparr>, r1))"

definition fixedWindow_reset ::
  "fixedWindow \<Rightarrow> int \<Rightarrow> string \<Rightarrow> redis \<Rightarrow> (js_error + unit) \<times> redis" where
  "fixedWindow_reset cfg now identifier r =
     (let key = fixedWindow_getKey cfg now identifier
      in case client_del key r of
           (Inl e, r1) \<Rightarrow> (Inl e, r1)
         | (Inr n, r1) \<Rightarrow> (Inr (), r1))"

section \<open>TokenBucketStrategy\<close>

datatype WindowType = SLIDING | FIXED

record tokenBucket =
  tb_refillRate :: int
  tb_interval :: int
  tb_capacity :: int
  tb_prefix :: string
  tb_takeRate :: int
  tb_windowType :: WindowType

text \<open>The constructor, with an interval already in milliseconds.\<close>

definition new_TokenBucketStrategy ::
  "int \<Rightarrow> int \<Rightarrow> int \<Rightarrow> WindowType \<Rightarrow> int option \<Rightarrow> string \<Rightarrow> tokenBucket" where
  "new_TokenBucketStrategy capacity interval takeRate windowType refillRate prefix =
     \<lparr>tb_refillRate = (case refillRate of None \<Rightarrow> capacity | Some x \<Rightarrow> x),
      tb_interval = interval,
      tb_capacity = capacity,
      tb_prefix = prefix,
      tb_takeRate = takeRate,
      tb_windowType = windowType\<rparr>"

definition tokenBucket_getKey :: "tokenBucket \<Rightarrow> int \<Rightarrow> string \<Rightarrow> string" where
  "tokenBucket_getKey cfg now identifier =
     (if tb_windowType cfg = FIXED then
        (let windowStart = (now div tb_interval cfg) * tb_interval cfg
         in tb_prefix cfg @ ''/bt/{'' @ identifier @ ''}/'' @ number_text windowStart)
      else tb_prefix cfg @ identifier)"

definition tokenBucket_getCurrentWindow :: "tokenBucket \<Rightarrow> int \<Rightarrow> int" where
  "tokenBucket_getCurrentWindow cfg now = (now div tb_interval cfg) * tb_interval cfg"

text \<open>
  The reply of \<^verbatim>\<open>HGETALL\<close> is the flat array \<^verbatim>\<open>{f1, v1, f2, v2, ...}\<close>:
  \<^verbatim>\<open>bucket[2]\<close> is the value of the first field and \<^verbatim>\<open>bucket[4]\<close> that of the
  second, \<^verbatim>\<open>nil\<close> when the hash has no such field.
\<close>

fun bucket_2 :: "(string \<times> int) list \<Rightarrow> int option" where
  "bucket_2 ((f1, v1) # h) = Some v1"
| "bucket_2 [] = None"

fun bucket_4 :: "(string \<times> int) list \<Rightarrow> int option" where
  "bucket_4 ((f1, v1) # (f2, v2) # h) = Some v2"
| "bucket_4 h = None"

definition lua_nil_arith :: js_error where
  "lua_nil_arith = ReplyError ''ERR attempt to perform arithmetic on a nil value''"

definition fixedWindowScript ::
  "string \<Rightarrow> int \<Rightarrow> int \<Rightarrow> int \<Rightarrow> int \<Rightarrow> redis_db \<Rightarrow> js_error + ((int \<times> int \<times> int) \<times> redis_db)" where
  "fixedWindowScript key now capacity windowSize takeRate d =
     (case redis_hgetall d key of
        Inl e \<Rightarrow> Inl e
      | Inr bucket \<Rightarrow>
          (let tokens = (case bucket_2 bucket of Some v \<Rightarrow> v | None \<Rightarrow> capacity);
               windowStart = (case bucket_4 bucket of Some v \<Rightarrow> v | None \<Rightarrow> now)
           in if tokens < takeRate then Inr ((0, tokens, windowStart + windowSize), d)
              else
                (let tokens1 = tokens - takeRate
                 in case redis_hmset d key ''tokens'' tokens1 ''windowStart'' windowStart of
                      Inl e \<Rightarrow> Inl e
                    | Inr d1 \<Rightarrow>
                        Inr ((1, tokens1, windowStart + windowSize),
                             snd (redis_pexpire d1 key windowSize)))))"

definition slidingWindowScript ::
  "string \<Rightarrow> int \<Rightarrow> int \<Rightarrow> int \<Rightarrow> int \<Rightarrow> int \<Rightarrow> redis_db
     \<Rightarrow> js_error + ((int \<times> int \<times> int) \<times> redis_db)" where
  "slidingWindowScript key now capacity interval refillRate takeRate d =
     (case redis_hgetall d key of
        Inl e \<Rightarrow> Inl e
      | Inr bucket \<Rightarrow>
          (let tokens0 = (if length bucket = 0 then Some capacity else bucket_2 bucket);
               lastRefill0 = (if length bucket = 0 then Some now else bucket_4 bucket)
           in case (tokens0, lastRefill0) of
                (Some tokens, Some lastRefill) \<Rightarrow>
                  (let timePassed = now - lastRefill;
                       tokensToAdd = (timePassed * refillRate) div interval;
                       tokens1 = min capacity (tokens + tokensToAdd)
                   in if tokens1 < takeRate then Inr ((0, tokens1, lastRefill + interval), d)
                      else
                        (let tokens2 = tokens1 - takeRate
                         in case redis_hmset d key ''tokens'' tokens2 ''lastRefill'' now of
                              Inl e \<Rightarrow> Inl e
                            | Inr d1 \<Rightarrow>
                                Inr ((1, tokens2, now + interval),
                                     snd (redis_pexpire d1 key interval))))
              | _ \<Rightarrow> Inl lua_nil_arith))"

definition tokenBucket_isAllowed ::
  "tokenBucket \<Rightarrow> int \<Rightarrow> string \<Rightarrow> redis \<Rightarrow> (js_error + rate_limiter_result) \<times> redis" where
  "tokenBucket_isAllowed cfg now identifier r =
     (let key = tokenBucket_getKey cfg now identifier;
          val =
            (if tb_windowType cfg = SLIDING then
               redis_eval
                 (slidingWindowScript key now (tb_capacity cfg) (tb_interval cfg)
                    (tb_refillRate cfg) (tb_takeRate cfg)) r
             else
               redis_eval
                 (fixedWindowScript key now (tb_capacity cfg) (tb_interval cfg)
                    (tb_takeRate cfg)) r)
      in case val of
           (Inl e, r1) \<Rightarrow> (Inl e, r1)
         | (Inr (ok, rem, rst), r1) \<Rightarrow>
             (Inr \<lparr>success = (ok = 1),
                   remaining = rem,
                   reset = rst,
                   limit = tb_capacity cfg,
                   name = ''TokenBucketStrategy'',
                   metadata = None\<rparr>, r1))"

definition tokenBucket_reset ::
  "tokenBucket \<Rightarrow> int \<Rightarrow> string \<Rightarrow> redis \<Rightarrow> (js_error + unit) \<times> redis" where
  "tokenBucket_reset cfg now identifier r =
     (let key =
            (if tb_windowType cfg = FIXED then
               (let currentWindow = tokenBucket_getCurrentWindow cfg now
                in tb_prefix cfg @ identifier @ '':'' @ number_text currentWindow)
             else tokenBucket_getKey cfg now identifier)
      in case client_del key r of
           (Inl e, r1) \<Rightarrow> (Inl e, r1)
         | (Inr n, r1) \<Rightarrow> (Inr (), r1))"

definition updateTokensFixed ::
  "string \<Rightarrow> int \<Rightarrow> int \<Rightarrow> int \<Rightarrow> int \<Rightarrow> redis_db \<Rightarrow> js_error + ((int \<times> int \<times> int) \<times> redis_db)" where
  "updateTokensFixed key now capacity windowSize tokensToSubtract d =
     (case redis_hgetall d key of
        Inl e \<Rightarrow> Inl e
      | Inr bucket \<Rightarrow>
          (let tokens = (case bucket_2 bucket of Some v \<Rightarrow> v | None \<Rightarrow> capacity);
               windowStart = (case bucket_4 bucket of Some v \<Rightarrow> v | None \<Rightarrow> now)
           in if tokens < tokensToSubtract then Inr ((0, tokens, windowStart + windowSize), d)
              else
                (let tokens1 = tokens - tokensToSubtract
                 in case redis_hmset d key ''tokens'' tokens1 ''windowStart'' windowStart of
                      Inl e \<Rightarrow> Inl e
                    | Inr d1 \<Rightarrow>
                        Inr ((1, tokens1, windowStart + windowSize),
                             snd (redis_pexpire d1 key windowSize)))))"

definition updateTokensSliding ::
  "string \<Rightarrow> int \<Rightarrow> int \<Rightarrow> int \<Rightarrow> int \<Rightarrow> int \<Rightarrow> redis_db
     \<Rightarrow> js_error + ((int \<times> int \<times> int) \<times> redis_db)" where
  "updateTokensSliding key now capacity interval refillRate tokensToSubtract d =
     (case redis_hgetall d key of
        Inl e \<Rightarrow> Inl e
      | Inr bucket \<Rightarrow>
          (let tokens0 = (if length bucket = 0 then Some capacity else bucket_2 bucket);
               lastRefill0 = (if length bucket = 0 then Some now else bucket_4 bucket)
           in case (tokens0, lastRefill0) of
                (Some tokens, Some lastRefill) \<Rightarrow>
                  (let timePassed = now - lastRefill;
                       tokensToAdd = (timePassed * refillRate) div interval;
                       tokens1 = min capacity (tokens + tokensToAdd)
                   in if tokens1 < tokensToSubtract
                      then Inr ((0, tokens1, lastRefill + interval), d)
                      else
                        (let tokens2 = tokens1 - tokensToSubtract
                         in case redis_hmset d key ''tokens'' tokens2 ''lastRefill'' now of
                              Inl e \<Rightarrow> Inl e
                            | Inr d1 \<Rightarrow>
                                Inr ((1, tokens2, now + interval),
                                     snd (redis_pexpire d1 key interval))))
              | _ \<Rightarrow> Inl lua_nil_arith))"

definition tokenBucket_updateTokens ::
  "tokenBucket \<Rightarrow> int \<Rightarrow> string \<Rightarrow> int \<Rightarrow> redis \<Rightarrow> (js_error + rate_limiter_result) \<times> redis" where
  "tokenBucket_updateTokens cfg now identifier tokensToSubtract r =
     (let key = tokenBucket_getKey cfg now identifier;
          val =
            (if tb_windowType cfg = SLIDING then
               redis_eval
                 (updateTokensSliding key now (tb_capacity cfg) (tb_interval cfg)
                    (tb_refillRate cfg) tokensToSubtract) r
             else
               redis_eval
                 (updateTokensFixed key now (tb_capacity cfg) (tb_interval cfg)
                    tokensToSubtract) r)
      in case val of
           (Inl e, r1) \<Rightarrow> (Inl e, r1)
         | (Inr (ok, rem, rst), r1) \<Rightarrow>
             (Inr \<lparr>success = (ok = 1),
                   remaining = rem,
                   reset = rst,
                   limit = tb_capacity cfg,
                   name = ''TokenBucketStrategy'',
                   metadata = None\<rparr>, r1))"

text \<open>
  A call of the token bucket's public surface, with the value of \<^verbatim>\<open>Date.now()\<close>
  at the call; a history of calls runs them one after the other on the store.
\<close>

datatype tokenBucket_call =
    IsAllowed int
  | UpdateTokens int int
  | Reset int

fun tokenBucket_run :: "tokenBucket \<Rightarrow> string \<Rightarrow> tokenBucket_call \<Rightarrow> redis \<Rightarrow> redis" where
  "tokenBucket_run cfg identifier (IsAllowed now) r =
     snd (tokenBucket_isAllowed cfg now identifier r)"
| "tokenBucket_run cfg identifier (UpdateTokens now amount) r =
     snd (tokenBucket_updateTokens cfg now identifier amount r)"
| "tokenBucket_run cfg identifier (Reset now) r =
     snd (tokenBucket_reset cfg now identifier r)"

fun tokenBucket_calls :: "tokenBucket \<Rightarrow> string \<Rightarrow> tokenBucket_call list \<Rightarrow> redis \<Rightarrow> redis" where
  "tokenBucket_calls cfg identifier [] r = r"
| "tokenBucket_calls cfg identifier (c # cs) r =
     tokenBucket_calls cfg identifier cs (tokenBucket_run cfg identifier c r)"

text \<open>The cost of a call: the amount of an update, the configured take rate of a decision.\<close>

fun call_cost :: "tokenBucket \<Rightarrow> tokenBucket_call \<Rightarrow> int" where
  "call_cost cfg (IsAllowed now) = tb_takeRate cfg"
| "call_cost cfg (UpdateTokens now amount) = amount"
| "call_cost cfg (Reset now) = 0"

text \<open>
  The invariant of a stored bucket: a hash under a key starts with its \<^verbatim>\<open>tokens\<close>
  field (the one the scripts read as \<^verbatim>\<open>bucket[2]\<close>), whose value lies between 0 and
  the capacity. A key that holds no hash is no bucket.
\<close>

fun tokens_in_range :: "int \<Rightarrow> (redis_value \<times> int option) option \<Rightarrow> bool" where
  "tokens_in_range capacity (Some (RHash ((f, tokens) # h), t)) =
     (f = ''tokens'' \<and> 0 \<le> tokens \<and> tokens \<le> capacity)"
| "tokens_in_range capacity v = True"

section \<open>ConcurrencyStrategy\<close>

record concurrency =
  cc_maxConcurrentRequests :: int
  cc_timeout :: int
  cc_prefix :: string

text \<open>The constructor: the defaults, overridden by the options that are given.\<close>

definition new_ConcurrencyStrategy :: "int \<Rightarrow> int option \<Rightarrow> string option \<Rightarrow> concurrency" where
  "new_ConcurrencyStrategy maxConcurrentRequests timeout prefix =
     \<lparr>cc_maxConcurrentRequests = maxConcurrentRequests,
      cc_timeout = (case timeout of None \<Rightarrow> 30000 | Some t \<Rightarrow> t),
      cc_prefix = (case prefix of None \<Rightarrow> ''concurrency:'' | Some p \<Rightarrow> p)\<rparr>"

definition concurrency_getKey :: "concurrency \<Rightarrow> string \<Rightarrow> string" where
  "concurrency_getKey cfg identifier = cc_prefix cfg @ ''/cc/{'' @ identifier @ ''}/count''"

text \<open>The script of \<^verbatim>\<open>isAllowed\<close>.\<close>

definition concurrency_isAllowed_script ::
  "string \<Rightarrow> int \<Rightarrow> int \<Rightarrow> int \<Rightarrow> redis_db
     \<Rightarrow> js_error + ((int \<times> int \<times> int \<times> int) \<times> redis_db)" where
  "concurrency_isAllowed_script key max_concurrent timeout now d =
     (case redis_get d key of
        Inl e \<Rightarrow> Inl e
      | Inr None \<Rightarrow>
          (case redis_set_px d key 1 timeout of
             Inl e \<Rightarrow> Inl e
           | Inr d1 \<Rightarrow> Inr ((1, max_concurrent - 1, timeout, 1), d1))
      | Inr (Some count) \<Rightarrow>
          if count \<ge> max_concurrent then Inr ((0, 0, timeout, count), d)
          else
            (case redis_incr d key of
               Inl e \<Rightarrow> Inl e
             | Inr (new_count, d1) \<Rightarrow>
                 Inr ((1, max_concurrent - new_count, timeout, new_count),
                      snd (redis_pexpire d1 key timeout))))"

definition concurrency_isAllowed ::
  "concurrency \<Rightarrow> int \<Rightarrow> string \<Rightarrow> redis \<Rightarrow> (js_error + rate_limiter_result) \<times> redis" where
  "concurrency_isAllowed cfg now identifier r =
     (let key = concurrency_getKey cfg identifier
      in case redis_eval
                (concurrency_isAllowed_script key (cc_maxConcurrentRequests cfg)
                   (cc_timeout cfg) now) r of
           (Inr (ok, rem, rst, currentCount), r1) \<Rightarrow>
             (Inr \<lparr>success = (ok = 1),
                   remaining = rem,
                   reset = now + rst,
                   limit = cc_maxConcurrentRequests cfg,
                   name = ''ConcurrencyStrategy'',
                   metadata = Some currentCount\<rparr>, r1)
         | (Inl e, r1) \<Rightarrow>
             if instanceof_RateLimitExceededError e then (Inl e, r1)
             else (Inl (Error ''Failed to check concurrency limit''), r1))"

text \<open>The script of \<^verbatim>\<open>release\<close>.\<close>

definition concurrency_release_script ::
  "string \<Rightarrow> redis_db \<Rightarrow> js_error + (int \<times> redis_db)" where
  "concurrency_release_script key d =
     (case redis_get d key of
        Inl e \<Rightarrow> Inl e
      | Inr None \<Rightarrow> Inr (0, d)
      | Inr (Some count) \<Rightarrow>
          if count \<le> 1 then Inr (redis_del d key)
          else redis_decr d key)"

definition concurrency_release ::
  "concurrency \<Rightarrow> string \<Rightarrow> redis \<Rightarrow> (js_error + unit) \<times> redis" where
  "concurrency_release cfg identifier r =
     (let key = concurrency_getKey cfg identifier
      in case redis_eval (concurrency_release_script key) r of
           (Inl e, r1) \<Rightarrow> (Inl e, r1)
         | (Inr n, r1) \<Rightarrow> (Inr (), r1))"

definition concurrency_reset ::
  "concurrency \<Rightarrow> string \<Rightarrow> redis \<Rightarrow> (js_error + unit) \<times> redis" where
  "concurrency_reset cfg identifier r =
     (let key = concurrency_getKey cfg identifier
      in case client_del key r of
           (Inl e, r1) \<Rightarrow> (Inl e, r1)
         | (Inr n, r1) \<Rightarrow> (Inr (), r1))"

text \<open>
  \<^verbatim>\<open>wrap\<close>: the wrapped function may use the store, and resolves or rejects. The
  \<^verbatim>\<open>finally\<close> block releases after either; when the release itself rejects, its
  error is what \<^verbatim>\<open>wrap\<close> rejects with.
\<close>

definition concurrency_wrap ::
  "concurrency \<Rightarrow> int \<Rightarrow> string \<Rightarrow> (redis \<Rightarrow> (js_error + 'a) \<times> redis) \<Rightarrow> redis
     \<Rightarrow> (js_error + 'a) \<times> redis" where
  "concurrency_wrap cfg now identifier fn r =
     (case concurrency_isAllowed cfg now identifier r of
        (Inl e, r1) \<Rightarrow> (Inl e, r1)
      | (Inr result, r1) \<Rightarrow>
          if \<not> success result then
            (Inl (RateLimitExceededError
                    (''Concurrent requests limit exceeded. Current count: ''
                       @ number_text (remaining result)
                       @ '', Limit: '' @ number_text (cc_maxConcurrentRequests cfg))), r1)
          else
            (case fn r1 of
               (outcome, r2) \<Rightarrow>
                 (case concurrency_release cfg identifier r2 of
                    (Inl e, r3) \<Rightarrow> (Inl e, r3)
                  | (Inr u, r3) \<Rightarrow> (outcome, r3))))"

text \<open>A call of \<^verbatim>\<open>isAllowed\<close> (with its \<^verbatim>\<open>Date.now()\<close>) or of \<^verbatim>\<open>release\<close>.\<close>

datatype concurrency_call = Acquire int | Release

fun concurrency_run :: "concurrency \<Rightarrow> string \<Rightarrow> concurrency_call \<Rightarrow> redis \<Rightarrow> redis" where
  "concurrency_run cfg identifier (Acquire now) r =
     snd (concurrency_isAllowed cfg now identifier r)"
| "concurrency_run cfg identifier Release r = snd (concurrency_release cfg identifier r)"

fun concurrency_calls :: "concurrency \<Rightarrow> string \<Rightarrow> concurrency_call list \<Rightarrow> redis \<Rightarrow> redis" where
  "concurrency_calls cfg identifier [] r = r"
| "concurrency_calls cfg identifier (c # cs) r =
     concurrency_calls cfg identifier cs (concurrency_run cfg identifier c r)"

text \<open>The slot count a key holds: 0 when there is no record.\<close>

fun slot_count :: "(redis_value \<times> int option) option \<Rightarrow> int" where
  "slot_count (Some (RString n, t)) = n"
| "slot_count v = 0"

section \<open>Ratelimit: the composite limiter\<close>

text \<open>
  The interface \<^verbatim>\<open>RateLimiterStrategy\<close>: a limiter acts on some state \<open>'s\<close> (for the
  limiters of the repository, the Redis client). \<^verbatim>\<open>isAllowed\<close> is awaited at once, so
  it is taken with its outcome. \<^verbatim>\<open>reset\<close> is called without being awaited: the call
  runs its synchronous part, which may change the state, and either throws or returns a
  promise; a promise is pending until it settles, and settling it may change the state
  and resolves or rejects.
\<close>

type_synonym 's promise = "'s \<Rightarrow> (js_error + unit) \<times> 's"

datatype 's reset_call =
    Throws js_error
  | Returns "'s promise"

record 's rateLimiterStrategy =
  strategy_isAllowed :: "string \<Rightarrow> 's \<Rightarrow> (js_error + rate_limiter_result) \<times> 's"
  strategy_reset :: "string \<Rightarrow> 's \<Rightarrow> 's reset_call \<times> 's"

text \<open>
  The loop of \<^verbatim>\<open>Ratelimit.isAllowed\<close>, with \<^verbatim>\<open>checkedLimiters\<close> as its accumulator.
  A limiter that rejects ends the call with its error.
\<close>

fun isAllowed_loop ::
  "'s rateLimiterStrategy list \<Rightarrow> string \<Rightarrow> rate_limiter_result list \<Rightarrow> 's
     \<Rightarrow> (js_error + rate_limiter_result list) \<times> 's" where
  "isAllowed_loop [] identifier checkedLimiters s = (Inr checkedLimiters, s)"
| "isAllowed_loop (limiter # limiters) identifier checkedLimiters s =
     (case strategy_isAllowed limiter identifier s of
        (Inl e, s1) \<Rightarrow> (Inl e, s1)
      | (Inr result, s1) \<Rightarrow>
          (let checked = checkedLimiters @ [result]
           in if \<not> success result then (Inr checked, s1)
              else isAllowed_loop limiters identifier checked s1))"

definition ratelimit_isAllowed ::
  "'s rateLimiterStrategy list \<Rightarrow> string \<Rightarrow> 's \<Rightarrow> (js_error + rate_limiter_result list) \<times> 's" where
  "ratelimit_isAllowed limiters identifier s = isAllowed_loop limiters identifier [] s"

text \<open>
  \<^verbatim>\<open>this.limiters.map(limiter => limiter.reset(identifier))\<close>: the resets are called in
  the order of the list. A call that throws ends the \<^verbatim>\<open>map\<close> with its error, and the
  limiters after it are not called; the promises returned before it stay pending. The
  result is the error thrown, if any, and the promises returned, in the order of the
  calls.
\<close>

fun map_reset ::
  "'s rateLimiterStrategy list \<Rightarrow> string \<Rightarrow> 's \<Rightarrow> (js_error option \<times> 's promise list) \<times> 's" where
  "map_reset [] identifier s = ((None, []), s)"
| "map_reset (limiter # limiters) identifier s =
     (case strategy_reset limiter identifier s of
        (Throws e, s1) \<Rightarrow> ((Some e, []), s1)
      | (Returns p, s1) \<Rightarrow>
          (case map_reset limiters identifier s1 of
             ((thrown, ps), s2) \<Rightarrow> ((thrown, p # ps), s2)))"

text \<open>
  The order in which pending promises settle is not fixed by the program: it is given as
  a schedule, the list of the promises' positions in the order they settle in. A
  position that names no promise, or one that has settled already, is passed over.
  \<open>settle_rest\<close> is the state after the promises of a schedule have settled, \<open>settled\<close>
  being the positions settled before.
\<close>

fun settle_rest :: "'s promise list \<Rightarrow> nat list \<Rightarrow> nat list \<Rightarrow> 's \<Rightarrow> 's" where
  "settle_rest ps settled [] s = s"
| "settle_rest ps settled (i # schedule) s =
     (if i < length ps \<and> i \<notin> set settled
      then settle_rest ps (i # settled) schedule (snd ((ps ! i) s))
      else settle_rest ps settled schedule s)"

text \<open>
  \<^verbatim>\<open>Promise.all\<close>: it rejects as soon as one of the promises rejects, with that
  rejection, and resolves once all of them have resolved; while neither has happened it
  is pending (\<open>None\<close>). The promises that are still pending when it rejects settle
  afterwards all the same. The result is the outcome, the state in which the promise
  that decides the outcome has settled (the outcome is reached no earlier), and the
  state after every promise of the schedule has settled.
\<close>

fun promise_all ::
  "'s promise list \<Rightarrow> nat list \<Rightarrow> nat list \<Rightarrow> 's \<Rightarrow> (js_error + unit) option \<times> 's \<times> 's" where
  "promise_all ps settled [] s =
     (if length settled = length ps then Some (Inr ()) else None, s, s)"
| "promise_all ps settled (i # schedule) s =
     (if i < length ps \<and> i \<notin> set settled then
        (case (ps ! i) s of
           (Inl e, s1) \<Rightarrow> (Some (Inl e), s1, settle_rest ps (i # settled) schedule s1)
         | (Inr u, s1) \<Rightarrow> promise_all ps (i # settled) schedule s1)
      else promise_all ps settled schedule s)"

text \<open>
  \<^verbatim>\<open>Ratelimit.reset\<close>, an async function: an error thrown inside \<^verbatim>\<open>map\<close> rejects its
  promise at once; otherwise it awaits \<^verbatim>\<open>Promise.all\<close> of the promises returned.
\<close>

definition ratelimit_reset ::
  "'s rateLimiterStrategy list \<Rightarrow> string \<Rightarrow> nat list \<Rightarrow> 's
     \<Rightarrow> (js_error + unit) option \<times> 's \<times> 's" where
  "ratelimit_reset limiters identifier schedule s =
     (case map_reset limiters identifier s of
        ((Some e, ps), s1) \<Rightarrow> (Some (Inl e), s1, settle_rest ps [] schedule s1)
      | ((None, ps), s1) \<Rightarrow> promise_all ps [] schedule s1)"

text \<open>
  The outcomes of the promises of a schedule, in the order they settle in: what the
  outcome of the composite reset is compared with.
\<close>

fun settlements :: "'s promise list \<Rightarrow> nat list \<Rightarrow> nat list \<Rightarrow> 's \<Rightarrow> (js_error + unit) list" where
  "settlements ps settled [] s = []"
| "settlements ps settled (i # schedule) s =
     (if i < length ps \<and> i \<notin> set settled
      then fst ((ps ! i) s) # settlements ps (i # settled) schedule (snd ((ps ! i) s))
      else settlements ps settled schedule s)"

subsection \<open>Observing which limiters are called\<close>

text \<open>
  To say which limiters a composite call invokes, each limiter is given a number and
  made to append it to a log beside the state whenever one of its operations is called.
  A promise it returns acts on the state as before and leaves the log alone.
\<close>

definition logged_promise :: "'s promise \<Rightarrow> ('s \<times> nat list) promise" where
  "logged_promise p = (\<lambda>(s, log). case p s of (outcome, s1) \<Rightarrow> (outcome, (s1, log)))"

definition logged :: "nat \<Rightarrow> 's rateLimiterStrategy \<Rightarrow> ('s \<times> nat list) rateLimiterStrategy" where
  "logged i limiter =
     \<lparr>strategy_isAllowed =
        (\<lambda>identifier (s, log).
           case strategy_isAllowed limiter identifier s of (p, s1) \<Rightarrow> (p, (s1, log @ [i]))),
      strategy_reset =
        (\<lambda>identifier (s, log).
           case strategy_reset limiter identifier s of
             (Throws e, s1) \<Rightarrow> (Throws e, (s1, log @ [i]))
           | (Returns p, s1) \<Rightarrow> (Returns (logged_promise p), (s1, log @ [i])))\<rparr>"

fun logged_from :: "nat \<Rightarrow> 's rateLimiterStrategy list \<Rightarrow> ('s \<times> nat list) rateLimiterStrategy list" where
  "logged_from n [] = []"
| "logged_from n (limiter # limiters) = logged n limiter # logged_from (Suc n) limiters"

text \<open>
  Evaluating every limiter of a list in order, with no short circuit: what the composite
  decision is compared with.
\<close>

fun evaluate_each ::
  "'s rateLimiterStrategy list \<Rightarrow> string \<Rightarrow> 's \<Rightarrow> (js_error + rate_limiter_result list) \<times> 's" where
  "evaluate_each [] identifier s = (Inr [], s)"
| "evaluate_each (limiter # limiters) identifier s =
     (case strategy_isAllowed limiter identifier s of
        (Inl e, s1) \<Rightarrow> (Inl e, s1)
      | (Inr result, s1) \<Rightarrow>
          (case evaluate_each limiters identifier s1 of
             (Inl e, s2) \<Rightarrow> (Inl e, s2)
           | (Inr results, s2) \<Rightarrow> (Inr (result # results), s2)))"

text \<open>
  The limiter of the tests (\<^verbatim>\<open>createMockStrategy\<close>): it answers the result it was made
  with and leaves the state alone; its reset is the function it was given.
\<close>

definition createMockStrategy ::
  "rate_limiter_result \<Rightarrow> ('s \<Rightarrow> 's reset_call \<times> 's) \<Rightarrow> 's rateLimiterStrategy" where
  "createMockStrategy options resetFn =
     \<lparr>strategy_isAllowed = (\<lambda>identifier s. (Inr options, s)),
      strategy_reset = (\<lambda>identifier s. resetFn s)\<rparr>"

text \<open>
  The reset functions the tests give it. \<^verbatim>\<open>async () => { resetCount++ }\<close>, on the counter
  as state: an async function runs its body when it is called, so the call counts and
  returns a promise that resolves. \<^verbatim>\<open>async () => { throw new Error(msg) }\<close>: the call
  returns a promise that rejects. Beside them \<^verbatim>\<open>() => { throw new Error(msg) }\<close>, a
  reset that is not async and throws when it is called.
\<close>

definition resetFn_count :: "nat \<Rightarrow> nat reset_call \<times> nat" where
  "resetFn_count resetCount = (Returns (\<lambda>s. (Inr (), s)), Suc resetCount)"

definition resetFn_throw :: "string \<Rightarrow> 's \<Rightarrow> 's reset_call \<times> 's" where
  "resetFn_throw msg s = (Returns (\<lambda>s1. (Inl (Error msg), s1)), s)"

definition resetFn_throw_sync :: "string \<Rightarrow> 's \<Rightarrow> 's reset_call \<times> 's" where
  "resetFn_throw_sync msg s = (Throws (Error msg), s)"

definition mock_result :: "bool \<Rightarrow> int \<Rightarrow> rate_limiter_result" where
  "mock_result ok rem =
     \<lparr>success = ok, remaining = rem, reset = 3600000, limit = 10,
      name = ''mock-strategy'', metadata = None\<rparr>"

section \<open>Properties of the scripts and their callers\<close>

lemma redis_eval_ok:
  "fault r = None \<Longrightarrow> redis_eval script r =
     (case script (db r) of Inl e \<Rightarrow> (Inl e, r) | Inr (reply, d) \<Rightarrow> (Inr reply, r\<lparr>db := d\<rparr>))"
  by (simp add: redis_eval_def)

lemma redis_eval_fault: "fault r = Some e \<Longrightarrow> redis_eval script r = (Inl e, r)"
  by (simp add: redis_eval_def)

lemma client_del_fault: "fault r = Some e \<Longrightarrow> client_del key r = (Inl e, r)"
  by (simp add: client_del_def)

subsection \<open>The fixed-window counter\<close>

text \<open>
  Claim C2. A fixed-window decision on a reachable store (the window's key is absent, or
  holds the counter \<open>n\<close> with time to live \<open>ttl\<close>) with a positive window length
  increments the counter in one script, sets the time to live to the window length when
  the count after the increment is 1, succeeds exactly when that count is at most
  \<open>maxRequests\<close>, and reports \<open>maxRequests - count\<close>, which may be negative. With
  \<open>maxRequests = 0\<close> the first decision of a window is refused.
\<close>

theorem fixedWindow_decide:
  assumes "fault r = None" and "0 < fw_windowMs cfg"
    and "key = fixedWindow_getKey cfg now ident"
    and "db r key = None \<and> n = 0 \<and> ttl = None \<or> db r key = Some (RString n, ttl)"
  shows "fixedWindow_isAllowed cfg now ident r =
           (Inr \<lparr>success = (n + 1 \<le> fw_maxRequests cfg),
                 remaining = fw_maxRequests cfg - (n + 1),
                 reset = now div 1000 + fw_windowMs cfg div 1000,
                 limit = fw_maxRequests cfg,
                 name = ''FixedWindowStrategy'',
                 metadata = None\<rparr>,
            r\<lparr>db := (db r)(key \<mapsto>
                  (RString (n + 1), if n + 1 = 1 then Some (fw_windowMs cfg) else ttl))\<rparr>)
         \<and> (fw_maxRequests cfg = 0 \<and> n = 0 \<longrightarrow>
              (case fst (fixedWindow_isAllowed cfg now ident r) of
                 Inr res \<Rightarrow> \<not> success res
               | Inl e \<Rightarrow> False))"
  using assms
  by (auto simp: fixedWindow_isAllowed_def redis_eval_ok fixedWindow_script_def
      redis_incr_def redis_pexpire_def lua_bool_reply_def Let_def)

lemma number_text_1234: "number_text 1234 = ''1234''"
  by (simp add: number_text_def nat_text.simps digit_text_def)

text \<open>
  The test \<^verbatim>\<open>should block requests over limit\<close>: \<open>maxRequests = 0\<close>, a window of one
  second, an empty store.
\<close>

theorem fixedWindow_decide_witness:
  "fixedWindow_isAllowed \<lparr>fw_maxRequests = 0, fw_windowMs = 1000, fw_prefix = ''''\<rparr>
      1234567 ''test-user'' \<lparr>fault = None, db = Map.empty\<rparr> =
     (Inr \<lparr>success = False, remaining = - 1, reset = 1235, limit = 0,
           name = ''FixedWindowStrategy'', metadata = None\<rparr>,
      \<lparr>fault = None, db = [''/fx/{test-user}/1234'' \<mapsto> (RString 1, Some 1000)]\<rparr>)"
  using fixedWindow_decide [where r = "\<lparr>fault = None, db = Map.empty\<rparr>"
      and cfg = "\<lparr>fw_maxRequests = 0, fw_windowMs = 1000, fw_prefix = ''''\<rparr>"
      and key = "''/fx/{test-user}/1234''" and now = 1234567 and ident = "''test-user''"
      and n = 0 and ttl = None]
  by (simp add: fixedWindow_getKey_def number_text_1234)

subsection \<open>The token bucket: the sliding decision\<close>

lemma slidingWindowScript_absent:
  assumes "0 < interval" and "d key = None"
  shows "slidingWindowScript key now capacity interval refillRate takeRate d =
     (if capacity < takeRate then Inr ((0, capacity, now + interval), d)
      else Inr ((1, capacity - takeRate, now + interval),
                d(key \<mapsto> (RHash [(''tokens'', capacity - takeRate), (''lastRefill'', now)],
                             Some interval))))"
  using assms
  by (simp add: slidingWindowScript_def redis_hgetall_def redis_hmset_def redis_pexpire_def
      Let_def)

lemma slidingWindowScript_stored:
  assumes "0 < interval"
    and "d key = Some (RHash [(''tokens'', tokens), (''lastRefill'', lastRefill)], ttl)"
    and "refilled = min capacity (tokens + ((now - lastRefill) * refillRate) div interval)"
  shows "slidingWindowScript key now capacity interval refillRate takeRate d =
     (if refilled < takeRate then Inr ((0, refilled, lastRefill + interval), d)
      else Inr ((1, refilled - takeRate, now + interval),
                d(key \<mapsto> (RHash [(''tokens'', refilled - takeRate), (''lastRefill'', now)],
                             Some interval))))"
  using assms
  by (simp add: slidingWindowScript_def redis_hgetall_def redis_hmset_def redis_pexpire_def
      Let_def)

text \<open>
  Claim C1. A sliding-mode decision on a bucket that holds \<open>(tokens, lastRefill)\<close> adds
  \<open>((now - lastRefill) * refillRate) div interval\<close> tokens, capped at the capacity. When
  the refilled count is below the take rate the call reports failure with the refilled
  count and \<open>lastRefill + interval\<close> and leaves the store as it was; otherwise it stores
  the refilled count less the take rate with \<open>lastRefill = now\<close> and a time to live of
  \<open>interval\<close>, and reports success with \<open>now + interval\<close>. An absent record counts as
  \<open>tokens = capacity\<close>, \<open>lastRefill = now\<close>. The interval is positive and the store
  answers.
\<close>

theorem tokenBucket_sliding_decide:
  assumes "fault r = None" and "tb_windowType cfg = SLIDING" and "0 < tb_interval cfg"
    and "key = tokenBucket_getKey cfg now ident"
    and "db r key = None \<and> tokens = tb_capacity cfg \<and> lastRefill = now
         \<or> db r key = Some (RHash [(''tokens'', tokens), (''lastRefill'', lastRefill)], ttl)"
    and "refilled = min (tb_capacity cfg)
           (tokens + ((now - lastRefill) * tb_refillRate cfg) div tb_interval cfg)"
  shows "tokenBucket_isAllowed cfg now ident r =
     (if refilled < tb_takeRate cfg then
        (Inr \<lparr>success = False, remaining = refilled,
              reset = lastRefill + tb_interval cfg, limit = tb_capacity cfg,
              name = ''TokenBucketStrategy'', metadata = None\<rparr>, r)
      else
        (Inr \<lparr>success = True, remaining = refilled - tb_takeRate cfg,
              reset = now + tb_interval cfg, limit = tb_capacity cfg,
              name = ''TokenBucketStrategy'', metadata = None\<rparr>,
         r\<lparr>db := (db r)(key \<mapsto>
               (RHash [(''tokens'', refilled - tb_takeRate cfg), (''lastRefill'', now)],
                Some (tb_interval cfg)))\<rparr>))"
proof -
  from assms(5) show ?thesis
  proof
    assume a: "db r key = None \<and> tokens = tb_capacity cfg \<and> lastRefill = now"
    then have "refilled = tb_capacity cfg" using assms(6) by simp
    with a assms(1-4) show ?thesis
      by (simp add: tokenBucket_isAllowed_def redis_eval_ok slidingWindowScript_absent)
  next
    assume a: "db r key = Some (RHash [(''tokens'', tokens), (''lastRefill'', lastRefill)], ttl)"
    with assms(1-4,6) show ?thesis
      by (simp add: tokenBucket_isAllowed_def redis_eval_ok
          slidingWindowScript_stored [where tokens = tokens and lastRefill = lastRefill and ttl = ttl])
  qed
qed

text \<open>
  The third decision of the test \<^verbatim>\<open>should work with sliding window\<close>: capacity 100000
  per six hours, take rate 25000, 50000 tokens left at time 0 and a decision 2100 ms
  later, after a refill of 9 tokens.
\<close>

theorem tokenBucket_sliding_decide_witness:
  "tokenBucket_isAllowed
      (new_TokenBucketStrategy 100000 21600000 25000 SLIDING None ''token-bucket:'')
      2100 ''user1''
      \<lparr>fault = None,
       db = [''token-bucket:user1'' \<mapsto>
               (RHash [(''tokens'', 50000), (''lastRefill'', 0)], Some 21600000)]\<rparr> =
     (Inr \<lparr>success = True, remaining = 25009, reset = 21602100, limit = 100000,
           name = ''TokenBucketStrategy'', metadata = None\<rparr>,
      \<lparr>fault = None,
       db = [''token-bucket:user1'' \<mapsto>
               (RHash [(''tokens'', 25009), (''lastRefill'', 2100)], Some 21600000)]\<rparr>)"
proof -
  let ?cfg = "new_TokenBucketStrategy 100000 21600000 25000 SLIDING None ''token-bucket:''"
  let ?r = "\<lparr>fault = None,
       db = [''token-bucket:user1'' \<mapsto>
               (RHash [(''tokens'', 50000), (''lastRefill'', 0)], Some 21600000)]\<rparr>"
  have h1: "fault ?r = None" by simp
  have h2: "tb_windowType ?cfg = SLIDING" by (simp add: new_TokenBucketStrategy_def)
  have h3: "0 < tb_interval ?cfg" by (simp add: new_TokenBucketStrategy_def)
  have h4: "''token-bucket:user1'' = tokenBucket_getKey ?cfg 2100 ''user1''"
    by (simp add: new_TokenBucketStrategy_def tokenBucket_getKey_def)
  have h5: "db ?r ''token-bucket:user1'' = None \<and> 50000 = tb_capacity ?cfg \<and> (0::int) = 2100
         \<or> db ?r ''token-bucket:user1'' =
            Some (RHash [(''tokens'', 50000), (''lastRefill'', 0)], Some 21600000)"
    by simp
  have h6: "50009 = min (tb_capacity ?cfg)
           (50000 + ((2100 - 0) * tb_refillRate ?cfg) div tb_interval ?cfg)"
    by (simp add: new_TokenBucketStrategy_def)
  note th = tokenBucket_sliding_decide [OF h1 h2 h3 h4 h5 h6]
  have c: "tb_takeRate ?cfg = 25000" "tb_capacity ?cfg = 100000" "tb_interval ?cfg = 21600000"
    by (simp_all add: new_TokenBucketStrategy_def)
  show ?thesis
    unfolding th c by simp
qed

subsection \<open>The token bucket: updateTokens against the decision\<close>

lemma updateTokensFixed_eq: "updateTokensFixed = fixedWindowScript"
  by (simp add: fun_eq_iff updateTokensFixed_def fixedWindowScript_def)

lemma updateTokensSliding_eq: "updateTokensSliding = slidingWindowScript"
  by (simp add: fun_eq_iff updateTokensSliding_def slidingWindowScript_def)

lemma updateTokens_eq:
  "tokenBucket_updateTokens cfg now ident amount r =
   tokenBucket_isAllowed (cfg\<lparr>tb_takeRate := amount\<rparr>) now ident r"
  by (cases "tb_windowType cfg")
    (simp_all add: tokenBucket_updateTokens_def tokenBucket_isAllowed_def tokenBucket_getKey_def
      updateTokensFixed_eq updateTokensSliding_eq Let_def split: prod.splits sum.splits)

text \<open>
  Claim C6. In both modes \<^verbatim>\<open>updateTokens(identifier, amount)\<close> returns the result and
  leaves the store that a single decision would with the take rate replaced by the
  amount, on every configuration, time, identifier and client, whether the store
  answers or not.
\<close>

theorem tokenBucket_updateTokens_refines_decide:
  "tokenBucket_updateTokens cfg now ident amount r =
   tokenBucket_isAllowed (cfg\<lparr>tb_takeRate := amount\<rparr>) now ident r"
  by (rule updateTokens_eq)

text \<open>
  The test \<^verbatim>\<open>should update tokens after execution\<close>: with 99999 tokens left, an update
  by 25000 is the decision of a bucket whose take rate is 25000.
\<close>

theorem tokenBucket_updateTokens_refines_decide_witness:
  "tokenBucket_updateTokens
      (new_TokenBucketStrategy 100000 21600000 1 SLIDING None ''token-bucket:'')
      0 ''user1'' 25000
      \<lparr>fault = None,
       db = [''token-bucket:user1'' \<mapsto>
               (RHash [(''tokens'', 99999), (''lastRefill'', 0)], Some 21600000)]\<rparr> =
   tokenBucket_isAllowed
      (new_TokenBucketStrategy 100000 21600000 25000 SLIDING None ''token-bucket:'')
      0 ''user1''
      \<lparr>fault = None,
       db = [''token-bucket:user1'' \<mapsto>
               (RHash [(''tokens'', 99999), (''lastRefill'', 0)], Some 21600000)]\<rparr>"
proof -
  have c: "(new_TokenBucketStrategy 100000 21600000 1 SLIDING None ''token-bucket:'')
             \<lparr>tb_takeRate := 25000\<rparr> =
           new_TokenBucketStrategy 100000 21600000 25000 SLIDING None ''token-bucket:''"
    by (simp add: new_TokenBucketStrategy_def)
  show ?thesis
    unfolding tokenBucket_updateTokens_refines_decide c by (rule refl)
qed

subsection \<open>The token bucket: the stored count stays within the capacity\<close>

lemma redis_eval_preserves:
  assumes "\<And>reply d'. script (db r) = Inr (reply, d') \<Longrightarrow> P (d' k)" and "P (db r k)"
  shows "P (db (snd (redis_eval script r)) k)"
  using assms by (auto simp: redis_eval_def split: option.splits sum.splits)

lemma client_del_preserves_range:
  "tokens_in_range capacity (db r k) \<Longrightarrow>
   tokens_in_range capacity (db (snd (client_del key r)) k)"
  by (auto simp: client_del_def redis_del_def split: option.splits)

lemma fixedWindowScript_range:
  assumes "fixedWindowScript key now capacity windowSize takeRate d = Inr (reply, d')"
    and "0 \<le> takeRate" and "tokens_in_range capacity (d k)"
  shows "tokens_in_range capacity (d' k)"
proof (cases "k = key")
  case False
  with assms show ?thesis
    by (auto simp: fixedWindowScript_def redis_hgetall_def redis_hmset_def redis_pexpire_def
        Let_def split: option.splits redis_value.splits if_splits)
next
  case True
  show ?thesis
  proof (cases "d key")
    case None
    with assms True show ?thesis
      by (auto simp: fixedWindowScript_def redis_hgetall_def redis_hmset_def redis_pexpire_def
          Let_def split: if_splits)
  next
    case (Some a)
    obtain v t where a: "a = (v, t)" by (cases a)
    show ?thesis
    proof (cases v)
      case (RString n)
      with assms Some a show ?thesis
        by (simp add: fixedWindowScript_def redis_hgetall_def)
    next
      case (RHash h)
      show ?thesis
      proof (cases h)
        case Nil
        with assms True Some a RHash show ?thesis
          by (auto simp: fixedWindowScript_def redis_hgetall_def redis_hmset_def
              redis_pexpire_def Let_def split: if_splits)
      next
        case (Cons p rest)
        obtain f tok where p: "p = (f, tok)" by (cases p)
        from assms(3) True Some a RHash Cons p
        have rng: "f = ''tokens''" "0 \<le> tok" "tok \<le> capacity" by simp_all
        with assms(1,2) True Some a RHash Cons p show ?thesis
          by (cases rest)
            (auto simp: fixedWindowScript_def redis_hgetall_def redis_hmset_def
              redis_pexpire_def Let_def split: if_splits)
      qed
    qed
  qed
qed


lemma slidingWindowScript_range:
  assumes "slidingWindowScript key now capacity interval refillRate takeRate d = Inr (reply, d')"
    and "0 \<le> takeRate" and "tokens_in_range capacity (d k)"
  shows "tokens_in_range capacity (d' k)"
proof (cases "k = key")
  case False
  with assms show ?thesis
    by (auto simp: slidingWindowScript_def redis_hgetall_def redis_hmset_def redis_pexpire_def
        Let_def split: option.splits redis_value.splits if_splits)
next
  case True
  show ?thesis
  proof (cases "d key")
    case None
    with assms True show ?thesis
      by (auto simp: slidingWindowScript_def redis_hgetall_def redis_hmset_def redis_pexpire_def
          Let_def split: if_splits)
  next
    case (Some a)
    obtain v t where a: "a = (v, t)" by (cases a)
    show ?thesis
    proof (cases v)
      case (RString n)
      with assms Some a show ?thesis
        by (simp add: slidingWindowScript_def redis_hgetall_def)
    next
      case (RHash h)
      show ?thesis
      proof (cases h)
        case Nil
        with assms True Some a RHash show ?thesis
          by (auto simp: slidingWindowScript_def redis_hgetall_def redis_hmset_def
              redis_pexpire_def Let_def split: if_splits)
      next
        case (Cons p rest)
        obtain f tok where p: "p = (f, tok)" by (cases p)
        from assms(3) True Some a RHash Cons p
        have rng: "f = ''tokens''" "0 \<le> tok" "tok \<le> capacity" by simp_all
        show ?thesis
        proof (cases rest)
          case Nil
          with assms(1) Some a RHash Cons p show ?thesis
            by (simp add: slidingWindowScript_def redis_hgetall_def)
        next
          case (Cons q rest')
          obtain g l where q: "q = (g, l)" by (cases q)
          define tokens1 where "tokens1 = min capacity (tok + ((now - l) * refillRate) div interval)"
          have dk: "d key = Some (RHash ((''tokens'', tok) # (g, l) # rest'), t)"
            using Some a RHash \<open>h = p # rest\<close> p Cons q rng by simp
          have scr: "slidingWindowScript key now capacity interval refillRate takeRate d =
            (if tokens1 < takeRate then Inr ((0, tokens1, l + interval), d)
             else Inr ((1, tokens1 - takeRate, now + interval),
                  snd (redis_pexpire
                    (d(key \<mapsto> (RHash ((''tokens'', tokens1 - takeRate)
                                         # hash_set ''lastRefill'' now ((g, l) # rest')), t)))
                    key interval)))"
            using dk
            by (simp add: slidingWindowScript_def redis_hgetall_def redis_hmset_def Let_def
                tokens1_def)
          show ?thesis
          proof (cases "tokens1 < takeRate")
            case True
            with scr assms(1,3) show ?thesis by simp
          next
            case False
            have "tokens1 \<le> capacity"
              unfolding tokens1_def by (rule min.cobounded1)
            with False assms(2)
            have "0 \<le> tokens1 - takeRate" "tokens1 - takeRate \<le> capacity"
              by linarith+
            moreover from False scr assms(1)
            have "d' = snd (redis_pexpire
                    (d(key \<mapsto> (RHash ((''tokens'', tokens1 - takeRate)
                                         # hash_set ''lastRefill'' now ((g, l) # rest')), t)))
                    key interval)"
              by simp
            ultimately show ?thesis
              using \<open>k = key\<close> by (simp add: redis_pexpire_def)
          qed
        qed
      qed
    qed
  qed
qed

lemma snd_tokenBucket_isAllowed:
  "snd (tokenBucket_isAllowed cfg now ident r) =
     (if tb_windowType cfg = SLIDING then
        snd (redis_eval (slidingWindowScript (tokenBucket_getKey cfg now ident) now
               (tb_capacity cfg) (tb_interval cfg) (tb_refillRate cfg) (tb_takeRate cfg)) r)
      else
        snd (redis_eval (fixedWindowScript (tokenBucket_getKey cfg now ident) now
               (tb_capacity cfg) (tb_interval cfg) (tb_takeRate cfg)) r))"
  by (simp add: tokenBucket_isAllowed_def Let_def split: prod.splits sum.splits)

lemma tokenBucket_isAllowed_range:
  assumes "0 \<le> tb_takeRate cfg" and "tokens_in_range (tb_capacity cfg) (db r k)"
  shows "tokens_in_range (tb_capacity cfg) (db (snd (tokenBucket_isAllowed cfg now ident r)) k)"
proof (cases "tb_windowType cfg = SLIDING")
  case True
  have "tokens_in_range (tb_capacity cfg)
          (db (snd (redis_eval (slidingWindowScript (tokenBucket_getKey cfg now ident) now
               (tb_capacity cfg) (tb_interval cfg) (tb_refillRate cfg) (tb_takeRate cfg)) r)) k)"
  proof (rule redis_eval_preserves [where P = "tokens_in_range (tb_capacity cfg)"])
    fix reply d'
    assume "slidingWindowScript (tokenBucket_getKey cfg now ident) now
               (tb_capacity cfg) (tb_interval cfg) (tb_refillRate cfg) (tb_takeRate cfg) (db r)
            = Inr (reply, d')"
    then show "tokens_in_range (tb_capacity cfg) (d' k)"
      using assms by (rule slidingWindowScript_range)
  next
    show "tokens_in_range (tb_capacity cfg) (db r k)" by fact
  qed
  with True show ?thesis by (simp add: snd_tokenBucket_isAllowed)
next
  case False
  have "tokens_in_range (tb_capacity cfg)
          (db (snd (redis_eval (fixedWindowScript (tokenBucket_getKey cfg now ident) now
               (tb_capacity cfg) (tb_interval cfg) (tb_takeRate cfg)) r)) k)"
  proof (rule redis_eval_preserves [where P = "tokens_in_range (tb_capacity cfg)"])
    fix reply d'
    assume "fixedWindowScript (tokenBucket_getKey cfg now ident) now
               (tb_capacity cfg) (tb_interval cfg) (tb_takeRate cfg) (db r)
            = Inr (reply, d')"
    then show "tokens_in_range (tb_capacity cfg) (d' k)"
      using assms by (rule fixedWindowScript_range)
  next
    show "tokens_in_range (tb_capacity cfg) (db r k)" by fact
  qed
  with False show ?thesis by (simp add: snd_tokenBucket_isAllowed)
qed

lemma tokenBucket_updateTokens_range:
  assumes "0 \<le> amount" and "tokens_in_range (tb_capacity cfg) (db r k)"
  shows "tokens_in_range (tb_capacity cfg)
           (db (snd (tokenBucket_updateTokens cfg now ident amount r)) k)"
  using tokenBucket_isAllowed_range [of "cfg\<lparr>tb_takeRate := amount\<rparr>" r k now ident] assms
  by (simp add: updateTokens_eq)

lemma snd_tokenBucket_reset:
  "snd (tokenBucket_reset cfg now ident r) =
     snd (client_del
       (if tb_windowType cfg = FIXED then
          tb_prefix cfg @ ident @ '':'' @ number_text (tokenBucket_getCurrentWindow cfg now)
        else tokenBucket_getKey cfg now ident) r)"
  by (simp add: tokenBucket_reset_def Let_def split: prod.splits sum.splits)

lemma tokenBucket_reset_range:
  assumes "tokens_in_range (tb_capacity cfg) (db r k)"
  shows "tokens_in_range (tb_capacity cfg) (db (snd (tokenBucket_reset cfg now ident r)) k)"
  unfolding snd_tokenBucket_reset using assms by (rule client_del_preserves_range)

lemma tokenBucket_run_range:
  assumes "0 \<le> call_cost cfg c" and "tokens_in_range (tb_capacity cfg) (db r k)"
  shows "tokens_in_range (tb_capacity cfg) (db (tokenBucket_run cfg ident c r) k)"
  using assms
  by (cases c)
    (simp_all add: tokenBucket_isAllowed_range tokenBucket_updateTokens_range
      tokenBucket_reset_range)

lemma tokenBucket_calls_range:
  assumes "\<forall>c\<in>set calls. 0 \<le> call_cost cfg c"
    and "tokens_in_range (tb_capacity cfg) (db r k)"
  shows "tokens_in_range (tb_capacity cfg) (db (tokenBucket_calls cfg ident calls r) k)"
  using assms
  by (induction calls arbitrary: r) (simp_all add: tokenBucket_run_range)


lemma fixedWindowScript_reject:
  assumes "d key = None \<and> available = capacity \<and> w = now
           \<or> d key = Some (RHash [(''tokens'', available), (''windowStart'', w)], ttl)"
    and "available < cost"
  shows "fixedWindowScript key now capacity windowSize cost d =
           Inr ((0, available, w + windowSize), d)"
  using assms by (auto simp: fixedWindowScript_def redis_hgetall_def Let_def)

lemma updateTokens_fixed_reject:
  assumes "fault r = None" and "tb_windowType cfg = FIXED"
    and "key = tokenBucket_getKey cfg now ident"
    and "db r key = None \<and> available = tb_capacity cfg \<and> w = now
         \<or> db r key = Some (RHash [(''tokens'', available), (''windowStart'', w)], ttl)"
    and "available < amount"
  shows "tokenBucket_updateTokens cfg now ident amount r =
           (Inr \<lparr>success = False, remaining = available, reset = w + tb_interval cfg,
                 limit = tb_capacity cfg, name = ''TokenBucketStrategy'',
                 metadata = None\<rparr>, r)"
proof -
  have "fixedWindowScript key now (tb_capacity cfg) (tb_interval cfg) amount (db r) =
          Inr ((0, available, w + tb_interval cfg), db r)"
    using assms(4,5) by (rule fixedWindowScript_reject)
  with assms(1-3) show ?thesis
    by (simp add: tokenBucket_updateTokens_def updateTokensFixed_eq redis_eval_ok)
qed

lemma updateTokens_sliding_reject:
  assumes "fault r = None" and "tb_windowType cfg = SLIDING" and "0 < tb_interval cfg"
    and "key = tokenBucket_getKey cfg now ident"
    and "db r key = None \<and> tokens = tb_capacity cfg \<and> lastRefill = now
         \<or> db r key = Some (RHash [(''tokens'', tokens), (''lastRefill'', lastRefill)], ttl)"
    and "available = min (tb_capacity cfg)
           (tokens + ((now - lastRefill) * tb_refillRate cfg) div tb_interval cfg)"
    and "available < amount"
  shows "tokenBucket_updateTokens cfg now ident amount r =
           (Inr \<lparr>success = False, remaining = available, reset = lastRefill + tb_interval cfg,
                 limit = tb_capacity cfg, name = ''TokenBucketStrategy'',
                 metadata = None\<rparr>, r)"
proof -
  have "slidingWindowScript key now (tb_capacity cfg) (tb_interval cfg) (tb_refillRate cfg)
          amount (db r) = Inr ((0, available, lastRefill + tb_interval cfg), db r)"
    using assms(5)
  proof
    assume a: "db r key = None \<and> tokens = tb_capacity cfg \<and> lastRefill = now"
    then have "available = tb_capacity cfg" using assms(6) by simp
    with a assms(3,7) show ?thesis by (simp add: slidingWindowScript_absent)
  next
    assume a: "db r key = Some (RHash [(''tokens'', tokens), (''lastRefill'', lastRefill)], ttl)"
    from slidingWindowScript_stored [where d = "db r", OF assms(3) a assms(6)] assms(7)
    show ?thesis by simp
  qed
  with assms(1,2,4) show ?thesis
    by (simp add: tokenBucket_updateTokens_def updateTokensSliding_eq redis_eval_ok)
qed

text \<open>
  Claim C3. For a bucket with a positive interval, every history of decisions, updates
  and resets whose costs are not negative keeps, under every key, a stored token count
  between 0 and the capacity when it was so before. An update that asks for more than
  the tokens available (the stored count in FIXED mode, the refilled count in SLIDING
  mode, the capacity when no record exists) reports failure with the available count
  as what remains, and the client and its store are left as they were.
\<close>

theorem tokenBucket_tokens_bounded:
  assumes "0 < tb_interval cfg" and "key = tokenBucket_getKey cfg now ident"
  shows "((\<forall>c\<in>set calls. 0 \<le> call_cost cfg c)
            \<and> tokens_in_range (tb_capacity cfg) (db r0 k)
          \<longrightarrow> tokens_in_range (tb_capacity cfg) (db (tokenBucket_calls cfg ident calls r0) k))
       \<and> (fault r = None \<and> tb_windowType cfg = FIXED \<and> available < amount
            \<and> (db r key = None \<and> available = tb_capacity cfg \<and> w = now
               \<or> db r key = Some (RHash [(''tokens'', available), (''windowStart'', w)], ttl))
          \<longrightarrow> tokenBucket_updateTokens cfg now ident amount r =
                (Inr \<lparr>success = False, remaining = available, reset = w + tb_interval cfg,
                      limit = tb_capacity cfg, name = ''TokenBucketStrategy'',
                      metadata = None\<rparr>, r))
       \<and> (fault r = None \<and> tb_windowType cfg = SLIDING \<and> available < amount
            \<and> available = min (tb_capacity cfg)
                 (tokens + ((now - lastRefill) * tb_refillRate cfg) div tb_interval cfg)
            \<and> (db r key = None \<and> tokens = tb_capacity cfg \<and> lastRefill = now
               \<or> db r key =
                  Some (RHash [(''tokens'', tokens), (''lastRefill'', lastRefill)], ttl))
          \<longrightarrow> tokenBucket_updateTokens cfg now ident amount r =
                (Inr \<lparr>success = False, remaining = available,
                      reset = lastRefill + tb_interval cfg,
                      limit = tb_capacity cfg, name = ''TokenBucketStrategy'',
                      metadata = None\<rparr>, r))"
proof (intro conjI impI)
  assume "(\<forall>c\<in>set calls. 0 \<le> call_cost cfg c) \<and> tokens_in_range (tb_capacity cfg) (db r0 k)"
  then show "tokens_in_range (tb_capacity cfg) (db (tokenBucket_calls cfg ident calls r0) k)"
    by (simp add: tokenBucket_calls_range)
next
  assume a: "fault r = None \<and> tb_windowType cfg = FIXED \<and> available < amount
            \<and> (db r key = None \<and> available = tb_capacity cfg \<and> w = now
               \<or> db r key = Some (RHash [(''tokens'', available), (''windowStart'', w)], ttl))"
  show "tokenBucket_updateTokens cfg now ident amount r =
                (Inr \<lparr>success = False, remaining = available, reset = w + tb_interval cfg,
                      limit = tb_capacity cfg, name = ''TokenBucketStrategy'',
                      metadata = None\<rparr>, r)"
    by (rule updateTokens_fixed_reject [where ttl = ttl]) (use a assms(2) in blast)+
next
  assume a: "fault r = None \<and> tb_windowType cfg = SLIDING \<and> available < amount
            \<and> available = min (tb_capacity cfg)
                 (tokens + ((now - lastRefill) * tb_refillRate cfg) div tb_interval cfg)
            \<and> (db r key = None \<and> tokens = tb_capacity cfg \<and> lastRefill = now
               \<or> db r key =
                  Some (RHash [(''tokens'', tokens), (''lastRefill'', lastRefill)], ttl))"
  show "tokenBucket_updateTokens cfg now ident amount r =
                (Inr \<lparr>success = False, remaining = available,
                      reset = lastRefill + tb_interval cfg,
                      limit = tb_capacity cfg, name = ''TokenBucketStrategy'',
                      metadata = None\<rparr>, r)"
    by (rule updateTokens_sliding_reject [where ttl = ttl and tokens = tokens])
      (use a assms in blast)+
qed


lemma number_text_0: "number_text 0 = ''0''"
  by (simp add: number_text_def nat_text.simps digit_text_def)

text \<open>
  The history of the test \<^verbatim>\<open>should update tokens after execution\<close> from an empty
  store, its refused update by 80000 against 74999 tokens, and a refused update by
  500000 against the 25000 tokens of a FIXED bucket.
\<close>

theorem tokenBucket_tokens_bounded_witness:
  "tokens_in_range 100000
     (db (tokenBucket_calls
            (new_TokenBucketStrategy 100000 21600000 1 SLIDING None ''token-bucket:'')
            ''user1'' [IsAllowed 0, UpdateTokens 0 25000, UpdateTokens 0 80000]
            \<lparr>fault = None, db = Map.empty\<rparr>)
       ''token-bucket:user1'')
   \<and> tokenBucket_updateTokens
        (new_TokenBucketStrategy 100000 21600000 1 SLIDING None ''token-bucket:'')
        0 ''user1'' 80000
        \<lparr>fault = None,
         db = [''token-bucket:user1'' \<mapsto>
                 (RHash [(''tokens'', 74999), (''lastRefill'', 0)], Some 21600000)]\<rparr> =
       (Inr \<lparr>success = False, remaining = 74999, reset = 21600000, limit = 100000,
             name = ''TokenBucketStrategy'', metadata = None\<rparr>,
        \<lparr>fault = None,
         db = [''token-bucket:user1'' \<mapsto>
                 (RHash [(''tokens'', 74999), (''lastRefill'', 0)], Some 21600000)]\<rparr>)
   \<and> tokenBucket_updateTokens
        (new_TokenBucketStrategy 100000 21600000 25000 FIXED None ''token-bucket:'')
        1000 ''user1'' 500000
        \<lparr>fault = None,
         db = [''token-bucket:/bt/{user1}/0'' \<mapsto>
                 (RHash [(''tokens'', 25000), (''windowStart'', 500)], Some 21600000)]\<rparr> =
       (Inr \<lparr>success = False, remaining = 25000, reset = 21600500, limit = 100000,
             name = ''TokenBucketStrategy'', metadata = None\<rparr>,
        \<lparr>fault = None,
         db = [''token-bucket:/bt/{user1}/0'' \<mapsto>
                 (RHash [(''tokens'', 25000), (''windowStart'', 500)], Some 21600000)]\<rparr>)"
proof -
  let ?sl = "new_TokenBucketStrategy 100000 21600000 1 SLIDING None ''token-bucket:''"
  let ?fx = "new_TokenBucketStrategy 100000 21600000 25000 FIXED None ''token-bucket:''"
  let ?r = "\<lparr>fault = None,
         db = [''token-bucket:user1'' \<mapsto>
                 (RHash [(''tokens'', 74999), (''lastRefill'', 0)], Some 21600000)]\<rparr>"
  let ?rf = "\<lparr>fault = None,
         db = [''token-bucket:/bt/{user1}/0'' \<mapsto>
                 (RHash [(''tokens'', 25000), (''windowStart'', 500)], Some 21600000)]\<rparr>"
  have sl: "tb_capacity ?sl = 100000" "tb_interval ?sl = 21600000" "tb_takeRate ?sl = 1"
    "tb_refillRate ?sl = 100000" "tb_windowType ?sl = SLIDING"
    by (simp_all add: new_TokenBucketStrategy_def)
  have fx: "tb_capacity ?fx = 100000" "tb_interval ?fx = 21600000" "tb_windowType ?fx = FIXED"
    by (simp_all add: new_TokenBucketStrategy_def)
  have i1: "0 < tb_interval ?sl" by (simp add: sl)
  have k1: "''token-bucket:user1'' = tokenBucket_getKey ?sl 0 ''user1''"
    by (simp add: new_TokenBucketStrategy_def tokenBucket_getKey_def)
  have i2: "0 < tb_interval ?fx" by (simp add: fx)
  have k2: "''token-bucket:/bt/{user1}/0'' = tokenBucket_getKey ?fx 1000 ''user1''"
    by (simp add: new_TokenBucketStrategy_def tokenBucket_getKey_def number_text_0)
  note A = tokenBucket_tokens_bounded [OF i1 k1,
      where calls = "[IsAllowed 0, UpdateTokens 0 25000, UpdateTokens 0 80000]"
        and ?r0.0 = "\<lparr>fault = None, db = Map.empty\<rparr>" and k = "''token-bucket:user1''"
        and r = ?r and available = 74999 and amount = 80000 and tokens = 74999
        and lastRefill = 0 and ttl = "Some 21600000"]
  note B = tokenBucket_tokens_bounded [OF i2 k2,
      where r = ?rf and available = 25000 and amount = 500000 and w = 500
        and ttl = "Some 21600000"]
  have a: "tokens_in_range 100000
     (db (tokenBucket_calls ?sl ''user1'' [IsAllowed 0, UpdateTokens 0 25000, UpdateTokens 0 80000]
            \<lparr>fault = None, db = Map.empty\<rparr>) ''token-bucket:user1'')"
    using A [THEN conjunct1] by (simp add: sl)
  have b: "tokenBucket_updateTokens ?sl 0 ''user1'' 80000 ?r =
       (Inr \<lparr>success = False, remaining = 74999, reset = 21600000, limit = 100000,
             name = ''TokenBucketStrategy'', metadata = None\<rparr>, ?r)"
    using A [THEN conjunct2, THEN conjunct2] by (simp add: sl)
  have c: "tokenBucket_updateTokens ?fx 1000 ''user1'' 500000 ?rf =
       (Inr \<lparr>success = False, remaining = 25000, reset = 21600500, limit = 100000,
             name = ''TokenBucketStrategy'', metadata = None\<rparr>, ?rf)"
    using B [THEN conjunct2, THEN conjunct1] by (simp add: fx)
  from a b c show ?thesis by (intro conjI)
qed

subsection \<open>The composite decision\<close>

lemma isAllowed_loop_acc:
  "isAllowed_loop ls ident acc s =
     (case isAllowed_loop ls ident [] s of
        (Inl e, s1) \<Rightarrow> (Inl e, s1)
      | (Inr rs, s1) \<Rightarrow> (Inr (acc @ rs), s1))"
proof (induction ls arbitrary: acc s)
  case Nil
  show ?case by simp
next
  case (Cons l ls)
  show ?case
  proof (cases "strategy_isAllowed l ident s")
    case (Pair p s1)
    show ?thesis
    proof (cases p)
      case (Inl e)
      with Pair show ?thesis by simp
    next
      case (Inr res)
      show ?thesis
      proof (cases "success res")
        case False
        with Pair Inr show ?thesis by simp
      next
        case True
        have "isAllowed_loop (l # ls) ident acc s = isAllowed_loop ls ident (acc @ [res]) s1"
          using Pair Inr True by simp
        also have "\<dots> = (case isAllowed_loop ls ident [] s1 of
             (Inl e, s2) \<Rightarrow> (Inl e, s2) | (Inr rs, s2) \<Rightarrow> (Inr ((acc @ [res]) @ rs), s2))"
          by (rule Cons.IH)
        finally have lhs: "isAllowed_loop (l # ls) ident acc s =
            (case isAllowed_loop ls ident [] s1 of
               (Inl e, s2) \<Rightarrow> (Inl e, s2) | (Inr rs, s2) \<Rightarrow> (Inr (acc @ res # rs), s2))"
          by (simp split: prod.splits sum.splits)
        have "isAllowed_loop (l # ls) ident [] s = isAllowed_loop ls ident [res] s1"
          using Pair Inr True by simp
        also have "\<dots> = (case isAllowed_loop ls ident [] s1 of
             (Inl e, s2) \<Rightarrow> (Inl e, s2) | (Inr rs, s2) \<Rightarrow> (Inr ([res] @ rs), s2))"
          by (rule Cons.IH)
        finally have rhs: "isAllowed_loop (l # ls) ident [] s =
            (case isAllowed_loop ls ident [] s1 of
               (Inl e, s2) \<Rightarrow> (Inl e, s2) | (Inr rs, s2) \<Rightarrow> (Inr (res # rs), s2))"
          by (simp split: prod.splits sum.splits)
        show ?thesis
          unfolding lhs rhs by (simp split: prod.splits sum.splits)
      qed
    qed
  qed
qed

lemma ratelimit_isAllowed_Nil: "ratelimit_isAllowed [] ident s = (Inr [], s)"
  by (simp add: ratelimit_isAllowed_def)

lemma ratelimit_isAllowed_Cons:
  "ratelimit_isAllowed (l # ls) ident s =
     (case strategy_isAllowed l ident s of
        (Inl e, s1) \<Rightarrow> (Inl e, s1)
      | (Inr res, s1) \<Rightarrow>
          if \<not> success res then (Inr [res], s1)
          else (case ratelimit_isAllowed ls ident s1 of
                  (Inl e, s2) \<Rightarrow> (Inl e, s2)
                | (Inr rs, s2) \<Rightarrow> (Inr (res # rs), s2)))"
proof -
  have "\<And>res s1. isAllowed_loop ls ident [res] s1 =
      (case isAllowed_loop ls ident [] s1 of
         (Inl e, s2) \<Rightarrow> (Inl e, s2) | (Inr rs, s2) \<Rightarrow> (Inr (res # rs), s2))"
    using isAllowed_loop_acc [of ls ident "[_]"] by (simp split: prod.splits sum.splits)
  then show ?thesis
    by (simp add: ratelimit_isAllowed_def split: prod.splits sum.splits)
qed

text \<open>What a composite decision that resolves returns.\<close>

lemma ratelimit_isAllowed_shape:
  assumes "ratelimit_isAllowed ls ident s = (Inr rs, s1)"
  shows "length rs \<le> length ls"
    and "evaluate_each (take (length rs) ls) ident s = (Inr rs, s1)"
    and "\<forall>res\<in>set (butlast rs). success res"
    and "rs \<noteq> [] \<and> \<not> success (last rs) \<or> length rs = length ls \<and> (\<forall>res\<in>set rs. success res)"
  using assms
proof (induction ls arbitrary: s rs)
  case Nil
  {
    case 1 then show ?case by (simp add: ratelimit_isAllowed_Nil)
  next
    case 2 then show ?case by (auto simp add: ratelimit_isAllowed_Nil)
  next
    case 3 then show ?case by (auto simp add: ratelimit_isAllowed_Nil)
  next
    case 4 then show ?case by (auto simp add: ratelimit_isAllowed_Nil)
  }
next
  case (Cons l ls)
  {
    case 1
    then show ?case
      using Cons.IH(1)
      by (auto simp: ratelimit_isAllowed_Cons split: prod.splits sum.splits if_splits)
  next
    case 2
    then show ?case
      using Cons.IH(2)
      by (auto simp: ratelimit_isAllowed_Cons split: prod.splits sum.splits if_splits)
  next
    case 3
    then show ?case
      using Cons.IH(3,4)
      by (fastforce simp: ratelimit_isAllowed_Cons split: prod.splits sum.splits if_splits)
  next
    case 4
    then show ?case
      using Cons.IH(4)
      by (fastforce simp: ratelimit_isAllowed_Cons split: prod.splits sum.splits if_splits)
  }
qed


lemma logged_isAllowed:
  "strategy_isAllowed (logged n l) ident (s, log) =
     (case strategy_isAllowed l ident s of (p, s1) \<Rightarrow> (p, (s1, log @ [n])))"
  by (simp add: logged_def)

lemma ratelimit_isAllowed_logged:
  assumes "ratelimit_isAllowed ls ident s = (Inr rs, s1)"
  shows "ratelimit_isAllowed (logged_from n ls) ident (s, log) =
           (Inr rs, (s1, log @ [n..<n + length rs]))"
  using assms
proof (induction ls arbitrary: s rs n log)
  case Nil
  then show ?case by (simp add: ratelimit_isAllowed_Nil)
next
  case (Cons l ls)
  obtain p s2 where step: "strategy_isAllowed l ident s = (p, s2)"
    by (cases "strategy_isAllowed l ident s")
  show ?case
  proof (cases p)
    case (Inl e)
    with step Cons.prems show ?thesis by (simp add: ratelimit_isAllowed_Cons)
  next
    case (Inr res)
    show ?thesis
    proof (cases "success res")
      case False
      with step Inr Cons.prems show ?thesis
        by (auto simp: ratelimit_isAllowed_Cons logged_isAllowed)
    next
      case True
      with step Inr Cons.prems obtain rs' where
        tl: "ratelimit_isAllowed ls ident s2 = (Inr rs', s1)" and rs: "rs = res # rs'"
        by (auto simp: ratelimit_isAllowed_Cons split: prod.splits sum.splits)
      have "ratelimit_isAllowed (logged_from (Suc n) ls) ident (s2, log @ [n]) =
              (Inr rs', (s1, (log @ [n]) @ [Suc n..<Suc n + length rs']))"
        using tl by (rule Cons.IH)
      moreover have "[n..<n + length rs] = n # [Suc n..<Suc n + length rs']"
      proof -
        have "n < n + length rs" using rs by simp
        then have "[n..<n + length rs] = n # [Suc n..<n + length rs]"
          by (rule upt_conv_Cons)
        moreover have "n + length rs = Suc n + length rs'" using rs by simp
        ultimately show ?thesis by (simp only:)
      qed
      ultimately show ?thesis
        using step Inr True rs by (simp add: ratelimit_isAllowed_Cons logged_isAllowed)
    qed
  qed
qed

text \<open>
  Claim C4. A composite decision that resolves with the list \<open>rs\<close> has evaluated the
  limiters in the order of the configuration and stopped at the first result that is
  not a success: \<open>rs\<close> is no longer than the list of limiters; it is, with the final
  state, what evaluating exactly the first \<open>length rs\<close> limiters in order gives; every
  result but the last is a success; the last one is the failing limiter's, or every
  result is a success and every limiter was evaluated; and the limiters that were
  called are those numbered \<open>0\<close> to \<open>length rs - 1\<close>, once each and in that order, so
  that no limiter after the failing one is called.
\<close>

theorem ratelimit_isAllowed_short_circuit:
  assumes "ratelimit_isAllowed ls ident s = (Inr rs, s1)"
  shows "length rs \<le> length ls
       \<and> evaluate_each (take (length rs) ls) ident s = (Inr rs, s1)
       \<and> (\<forall>res\<in>set (butlast rs). success res)
       \<and> (rs \<noteq> [] \<and> \<not> success (last rs)
          \<or> length rs = length ls \<and> (\<forall>res\<in>set rs. success res))
       \<and> ratelimit_isAllowed (logged_from 0 ls) ident (s, []) =
            (Inr rs, (s1, [0..<length rs]))"
  using ratelimit_isAllowed_shape [OF assms]
    ratelimit_isAllowed_logged [OF assms, of 0 "[]"]
  by simp

text \<open>
  The test \<^verbatim>\<open>should fail fast when any strategy fails\<close>: of three limiters the
  second fails; the decision returns the first two results and the third limiter is
  not called.
\<close>

theorem ratelimit_isAllowed_short_circuit_witness:
  "ratelimit_isAllowed
      [createMockStrategy (mock_result True 10) resetFn_count,
       createMockStrategy (mock_result False 0) resetFn_count,
       createMockStrategy (mock_result True 10) resetFn_count]
      ''test-user'' (0::nat) = (Inr [mock_result True 10, mock_result False 0], 0)
   \<and> evaluate_each
      [createMockStrategy (mock_result True 10) resetFn_count,
       createMockStrategy (mock_result False 0) resetFn_count]
      ''test-user'' (0::nat) = (Inr [mock_result True 10, mock_result False 0], 0)
   \<and> ratelimit_isAllowed
      (logged_from 0
        [createMockStrategy (mock_result True 10) resetFn_count,
         createMockStrategy (mock_result False 0) resetFn_count,
         createMockStrategy (mock_result True 10) resetFn_count])
      ''test-user'' (0::nat, []) =
     (Inr [mock_result True 10, mock_result False 0], (0, [0, 1]))"
proof -
  let ?ls = "[createMockStrategy (mock_result True 10) resetFn_count,
       createMockStrategy (mock_result False 0) resetFn_count,
       createMockStrategy (mock_result True 10) resetFn_count]"
  have h: "ratelimit_isAllowed ?ls ''test-user'' (0::nat) =
             (Inr [mock_result True 10, mock_result False 0], 0)"
    by (simp add: ratelimit_isAllowed_def createMockStrategy_def mock_result_def)
  have u: "[0..<2] = [0, Suc 0]" by (simp add: upt_conv_Cons)
  from ratelimit_isAllowed_short_circuit [OF h] h show ?thesis
    by (simp add: u)
qed

subsection \<open>The composite reset\<close>

lemma map_reset_length:
  assumes "map_reset ls ident s = ((thrown, ps), s1)"
  shows "(thrown = None \<longrightarrow> length ps = length ls) \<and> (thrown \<noteq> None \<longrightarrow> length ps < length ls)"
  using assms
proof (induction ls arbitrary: s thrown ps s1)
  case Nil
  then show ?case by simp
next
  case (Cons l ls)
  obtain c s2 where step: "strategy_reset l ident s = (c, s2)"
    by (cases "strategy_reset l ident s")
  show ?case
  proof (cases c)
    case (Throws e)
    with step Cons.prems show ?thesis by auto
  next
    case (Returns p)
    obtain th qs s3 where rest: "map_reset ls ident s2 = ((th, qs), s3)"
      by (cases "map_reset ls ident s2") auto
    from Cons.IH [OF rest] step Returns rest Cons.prems show ?thesis by auto
  qed
qed

lemma logged_reset:
  "strategy_reset (logged n l) ident (s, log) =
     (case strategy_reset l ident s of
        (Throws e, s1) \<Rightarrow> (Throws e, (s1, log @ [n]))
      | (Returns p, s1) \<Rightarrow> (Returns (logged_promise p), (s1, log @ [n])))"
  by (simp add: logged_def)

text \<open>The calls of a reset over numbered limiters: the log holds the limiters called.\<close>

lemma map_reset_logged:
  assumes "map_reset ls ident s = ((thrown, ps), s1)"
  shows "map_reset (logged_from n ls) ident (s, log) =
           ((thrown, map logged_promise ps),
            (s1, log @ [n..<n + (if thrown = None then length ps else Suc (length ps))]))"
  using assms
proof (induction ls arbitrary: s thrown ps s1 n log)
  case Nil
  then show ?case by simp
next
  case (Cons l ls)
  obtain c s2 where step: "strategy_reset l ident s = (c, s2)"
    by (cases "strategy_reset l ident s")
  show ?case
  proof (cases c)
    case (Throws e)
    with step Cons.prems show ?thesis by (auto simp: logged_reset)
  next
    case (Returns p)
    obtain th qs s3 where rest: "map_reset ls ident s2 = ((th, qs), s3)"
      by (cases "map_reset ls ident s2") auto
    from step Returns rest Cons.prems
    have eqs: "thrown = th" "ps = p # qs" "s1 = s3" by auto
    let ?k = "if th = None then length qs else Suc (length qs)"
    have ih: "map_reset (logged_from (Suc n) ls) ident (s2, log @ [n]) =
           ((th, map logged_promise qs), (s3, (log @ [n]) @ [Suc n..<Suc n + ?k]))"
      using rest by (rule Cons.IH)
    have "[n..<n + Suc ?k] = n # [Suc n..<Suc n + ?k]"
    proof -
      have "n < n + Suc ?k" by simp
      then have "[n..<n + Suc ?k] = n # [Suc n..<n + Suc ?k]" by (rule upt_conv_Cons)
      moreover have "n + Suc ?k = Suc n + ?k" by simp
      ultimately show ?thesis by (simp only:)
    qed
    moreover have "(if thrown = None then length ps else Suc (length ps)) = Suc ?k"
      using eqs by simp
    ultimately show ?thesis
      using step Returns ih eqs by (simp add: logged_reset)
  qed
qed


lemma promise_all_final:
  "snd (snd (promise_all ps settled schedule s)) = settle_rest ps settled schedule s"
proof (induction schedule arbitrary: settled s)
  case Nil
  show ?case by simp
next
  case (Cons i schedule)
  show ?case
  proof (cases "i < length ps \<and> i \<notin> set settled")
    case False
    then show ?thesis using Cons.IH [of settled s] by auto
  next
    case True
    obtain outcome s1 where step: "(ps ! i) s = (outcome, s1)" by (cases "(ps ! i) s")
    show ?thesis
    proof (cases outcome)
      case (Inl e)
      with True step show ?thesis by simp
    next
      case (Inr u)
      with True step Cons.IH [of "i # settled" s1] show ?thesis by simp
    qed
  qed
qed

lemma schedule_complete:
  assumes "distinct settled" and "set settled = {..<n}"
  shows "length settled = n"
proof -
  have "length settled = card (set settled)" using assms(1) by (simp add: distinct_card)
  also have "\<dots> = n" using assms(2) by simp
  finally show ?thesis .
qed

lemma promise_all_outcome:
  assumes "distinct (settled @ schedule)" and "set (settled @ schedule) = {..<length ps}"
  shows "fst (promise_all ps settled schedule s) =
           Some (case filter isl (settlements ps settled schedule s) of
                   [] \<Rightarrow> Inr () | p # qs \<Rightarrow> p)"
  using assms
proof (induction schedule arbitrary: settled s)
  case Nil
  then have "length settled = length ps" by (simp add: schedule_complete)
  then show ?case by simp
next
  case (Cons i schedule)
  from Cons.prems have valid: "i < length ps" "i \<notin> set settled" by auto
  from Cons.prems have next_ok: "distinct ((i # settled) @ schedule)"
    "set ((i # settled) @ schedule) = {..<length ps}" by auto
  obtain outcome s1 where step: "(ps ! i) s = (outcome, s1)" by (cases "(ps ! i) s")
  show ?case
  proof (cases outcome)
    case (Inl e)
    with valid step show ?thesis by simp
  next
    case (Inr u)
    with valid step Cons.IH [OF next_ok, of s1] show ?thesis by simp
  qed
qed

lemma length_settlements:
  assumes "distinct (settled @ schedule)" and "set (settled @ schedule) = {..<length ps}"
  shows "length (settlements ps settled schedule s) = length schedule"
  using assms
proof (induction schedule arbitrary: settled s)
  case Nil
  show ?case by simp
next
  case (Cons i schedule)
  from Cons.prems have valid: "i < length ps" "i \<notin> set settled" by auto
  from Cons.prems have next_ok: "distinct ((i # settled) @ schedule)"
    "set ((i # settled) @ schedule) = {..<length ps}" by auto
  from valid Cons.IH [OF next_ok] show ?case by simp
qed

lemma logged_promise_apply:
  "logged_promise p (s, log) = (case p s of (outcome, s1) \<Rightarrow> (outcome, (s1, log)))"
  by (simp add: logged_promise_def)

lemma settle_rest_logged:
  "settle_rest (map logged_promise ps) settled schedule (s, log) =
     (settle_rest ps settled schedule s, log)"
proof (induction schedule arbitrary: settled s)
  case Nil
  show ?case by simp
next
  case (Cons i schedule)
  show ?case
  proof (cases "i < length ps \<and> i \<notin> set settled")
    case False
    then show ?thesis using Cons.IH [of settled s] by auto
  next
    case True
    obtain outcome s1 where step: "(ps ! i) s = (outcome, s1)" by (cases "(ps ! i) s")
    with True Cons.IH [of "i # settled" s1] show ?thesis
      by (simp add: logged_promise_apply)
  qed
qed

lemma promise_all_logged:
  "promise_all (map logged_promise ps) settled schedule (s, log) =
     (case promise_all ps settled schedule s of
        (outcome, sa, sf) \<Rightarrow> (outcome, (sa, log), (sf, log)))"
proof (induction schedule arbitrary: settled s)
  case Nil
  show ?case by simp
next
  case (Cons i schedule)
  show ?case
  proof (cases "i < length ps \<and> i \<notin> set settled")
    case False
    then show ?thesis using Cons.IH [of settled s] by auto
  next
    case True
    obtain outcome s1 where step: "(ps ! i) s = (outcome, s1)" by (cases "(ps ! i) s")
    show ?thesis
    proof (cases outcome)
      case (Inl e)
      with True step show ?thesis
        by (simp add: logged_promise_apply settle_rest_logged)
    next
      case (Inr u)
      with True step Cons.IH [of "i # settled" s1] show ?thesis
        by (simp add: logged_promise_apply)
    qed
  qed
qed

lemma ratelimit_reset_logged:
  assumes "map_reset ls ident s = ((thrown, ps), s1)"
  shows "ratelimit_reset (logged_from n ls) ident schedule (s, log) =
     (case ratelimit_reset ls ident schedule s of
        (outcome, sa, sf) \<Rightarrow>
          (outcome,
           (sa, log @ [n..<n + (if thrown = None then length ps else Suc (length ps))]),
           (sf, log @ [n..<n + (if thrown = None then length ps else Suc (length ps))])))"
proof (cases thrown)
  case None
  with assms map_reset_logged [OF assms, of n log] show ?thesis
    by (simp add: ratelimit_reset_def promise_all_logged split: prod.splits)
next
  case (Some e)
  with assms map_reset_logged [OF assms, of n log] show ?thesis
    by (simp add: ratelimit_reset_def settle_rest_logged)
qed


lemma map_reset_Returns:
  assumes "strategy_reset l ident s = (Returns p, s2)"
  shows "map_reset (l # ls) ident s =
           ((fst (fst (map_reset ls ident s2)), p # snd (fst (map_reset ls ident s2))),
            snd (map_reset ls ident s2))"
  using assms by (simp split: prod.splits)

lemma nth_map_reset:
  assumes "map_reset ls ident s = ((thrown, ps), s1)"
  shows "(\<forall>i<length ps.
            fst (strategy_reset (ls ! i) ident (snd (map_reset (take i ls) ident s))) =
              Returns (ps ! i))
       \<and> (\<forall>e. thrown = Some e \<longrightarrow>
            strategy_reset (ls ! length ps) ident
              (snd (map_reset (take (length ps) ls) ident s)) = (Throws e, s1))"
  using assms
proof (induction ls arbitrary: s thrown ps s1)
  case Nil
  then show ?case by simp
next
  case (Cons l ls)
  obtain c s2 where step: "strategy_reset l ident s = (c, s2)"
    by (cases "strategy_reset l ident s")
  show ?case
  proof (cases c)
    case (Throws e)
    with step Cons.prems show ?thesis by auto
  next
    case (Returns p)
    with step have stepR: "strategy_reset l ident s = (Returns p, s2)" by simp
    obtain th qs s3 where rest: "map_reset ls ident s2 = ((th, qs), s3)"
      by (cases "map_reset ls ident s2") auto
    from stepR rest Cons.prems
    have eqs: "thrown = th" "ps = p # qs" "s1 = s3" by auto
    note ih = Cons.IH [OF rest]
    have a: "\<forall>i<length ps.
            fst (strategy_reset ((l # ls) ! i) ident
                   (snd (map_reset (take i (l # ls)) ident s))) = Returns (ps ! i)"
    proof (intro allI impI)
      fix i assume "i < length ps"
      show "fst (strategy_reset ((l # ls) ! i) ident
                   (snd (map_reset (take i (l # ls)) ident s))) = Returns (ps ! i)"
      proof (cases i)
        case 0
        with stepR eqs show ?thesis by simp
      next
        case (Suc j)
        with \<open>i < length ps\<close> eqs have "j < length qs" by simp
        with ih have "fst (strategy_reset (ls ! j) ident
                        (snd (map_reset (take j ls) ident s2))) = Returns (qs ! j)"
          by blast
        with Suc eqs show ?thesis
          by (simp add: map_reset_Returns [OF stepR] del: map_reset.simps(2))
      qed
    qed
    have b: "\<forall>e. thrown = Some e \<longrightarrow>
            strategy_reset ((l # ls) ! length ps) ident
              (snd (map_reset (take (length ps) (l # ls)) ident s)) = (Throws e, s1)"
      using ih eqs by (simp add: map_reset_Returns [OF stepR] del: map_reset.simps(2))
    from a b show ?thesis by blast
  qed
qed

text \<open>
  Claim C9, amended. Let a composite reset make its calls, with \<open>thrown\<close> the error a call
  threw, if any, and \<open>ps\<close> the promises the calls returned, and let every returned
  promise settle once, in the order of the schedule. Then the limiters whose reset was
  called are those numbered from 0, once each and in the order of the configuration:
  all of them when no call throws, whether or not their promises reject, and those up to
  the one that throws otherwise; and this is so already in the state in which the
  promise that decides the outcome settles, so that a rejection is raised only after
  every reset has been called. The \<open>i\<close>-th promise is the one the \<open>i\<close>-th limiter returned. When no
  call throws, the outcome is the rejection that settles first, itself and not wrapped
  in another error, and it is to resolve when no promise rejects. When a call throws,
  its error is the outcome, reached in the state that call left. In both cases the final
  state is the state after every returned promise has settled: no reset is rolled back.
\<close>

theorem ratelimit_reset_attempts_all:
  assumes "map_reset ls ident s = ((thrown, ps), s1)"
    and "distinct schedule" and "set schedule = {..<length ps}"
  shows "ratelimit_reset (logged_from 0 ls) ident schedule (s, []) =
           (case ratelimit_reset ls ident schedule s of
              (outcome, sa, sf) \<Rightarrow>
                (outcome,
                 (sa, [0..<(if thrown = None then length ls else Suc (length ps))]),
                 (sf, [0..<(if thrown = None then length ls else Suc (length ps))])))
       \<and> (\<forall>i<length ps.
            fst (strategy_reset (ls ! i) ident (snd (map_reset (take i ls) ident s))) =
              Returns (ps ! i))
       \<and> (thrown = None \<longrightarrow>
            length ps = length ls
            \<and> fst (ratelimit_reset ls ident schedule s) =
                Some (case filter isl (settlements ps [] schedule s1) of
                        [] \<Rightarrow> Inr () | p # qs \<Rightarrow> p))
       \<and> (\<forall>e. thrown = Some e \<longrightarrow>
            length ps < length ls
            \<and> strategy_reset (ls ! length ps) ident
                (snd (map_reset (take (length ps) ls) ident s)) = (Throws e, s1)
            \<and> fst (ratelimit_reset ls ident schedule s) = Some (Inl e)
            \<and> fst (snd (ratelimit_reset ls ident schedule s)) = s1)
       \<and> snd (snd (ratelimit_reset ls ident schedule s)) = settle_rest ps [] schedule s1
       \<and> length (settlements ps [] schedule s1) = length ps"
proof -
  have perm: "distinct ([] @ schedule)" "set ([] @ schedule) = {..<length ps}"
    using assms(2,3) by simp_all
  have len: "(thrown = None \<longrightarrow> length ps = length ls)
           \<and> (thrown \<noteq> None \<longrightarrow> length ps < length ls)"
    using assms(1) by (rule map_reset_length)
  have c1: "ratelimit_reset (logged_from 0 ls) ident schedule (s, []) =
           (case ratelimit_reset ls ident schedule s of
              (outcome, sa, sf) \<Rightarrow>
                (outcome,
                 (sa, [0..<(if thrown = None then length ls else Suc (length ps))]),
                 (sf, [0..<(if thrown = None then length ls else Suc (length ps))])))"
    using ratelimit_reset_logged [OF assms(1), of 0 schedule "[]"] len
    by (cases thrown) simp_all
  note c2 = nth_map_reset [OF assms(1)]
  have c3: "thrown = None \<longrightarrow>
            length ps = length ls
            \<and> fst (ratelimit_reset ls ident schedule s) =
                Some (case filter isl (settlements ps [] schedule s1) of
                        [] \<Rightarrow> Inr () | p # qs \<Rightarrow> p)"
    using len assms(1) promise_all_outcome [OF perm, of s1]
    by (simp add: ratelimit_reset_def)
  have c4: "\<forall>e. thrown = Some e \<longrightarrow>
            length ps < length ls
            \<and> strategy_reset (ls ! length ps) ident
                (snd (map_reset (take (length ps) ls) ident s)) = (Throws e, s1)
            \<and> fst (ratelimit_reset ls ident schedule s) = Some (Inl e)
            \<and> fst (snd (ratelimit_reset ls ident schedule s)) = s1"
    using len assms(1) c2 by (simp add: ratelimit_reset_def)
  have c5: "snd (snd (ratelimit_reset ls ident schedule s)) = settle_rest ps [] schedule s1"
    using assms(1) promise_all_final [of ps "[]" schedule s1]
    by (cases thrown) (simp_all add: ratelimit_reset_def)
  have c6: "length (settlements ps [] schedule s1) = length ps"
  proof -
    have "length (settlements ps [] schedule s1) = length schedule"
      using perm by (rule length_settlements)
    also have "\<dots> = length ps"
      using assms(2,3) by (rule schedule_complete)
    finally show ?thesis .
  qed
  from c1 c2 c3 c4 c5 c6 show ?thesis by blast
qed


text \<open>
  Four limiters, of which the second and the third reject and the third settles first:
  all four resets are called before the rejection of the third is raised, and the two
  counting resets have counted. Beside it the test \<^verbatim>\<open>should reset all strategies\<close>.
\<close>

theorem ratelimit_reset_attempts_all_witness:
  "ratelimit_reset
     [createMockStrategy (mock_result True 10) resetFn_count,
      createMockStrategy (mock_result True 10) (resetFn_throw ''slow''),
      createMockStrategy (mock_result True 10) (resetFn_throw ''fast''),
      createMockStrategy (mock_result True 10) resetFn_count]
     ''test-user'' [2, 0, 3, 1] (0::nat) = (Some (Inl (Error ''fast'')), 2, 2)
   \<and> ratelimit_reset
     (logged_from 0
       [createMockStrategy (mock_result True 10) resetFn_count,
        createMockStrategy (mock_result True 10) (resetFn_throw ''slow''),
        createMockStrategy (mock_result True 10) (resetFn_throw ''fast''),
        createMockStrategy (mock_result True 10) resetFn_count])
     ''test-user'' [2, 0, 3, 1] (0::nat, []) =
       (Some (Inl (Error ''fast'')), (2, [0, 1, 2, 3]), (2, [0, 1, 2, 3]))
   \<and> ratelimit_reset
     [createMockStrategy (mock_result True 10) resetFn_count,
      createMockStrategy (mock_result True 10) resetFn_count,
      createMockStrategy (mock_result True 10) resetFn_count]
     ''test-user'' [0, 1, 2] (0::nat) = (Some (Inr ()), 3, 3)"
proof -
  let ?ls = "[createMockStrategy (mock_result True 10) resetFn_count,
      createMockStrategy (mock_result True 10) (resetFn_throw ''slow''),
      createMockStrategy (mock_result True 10) (resetFn_throw ''fast''),
      createMockStrategy (mock_result True 10) resetFn_count]"
  let ?ps = "[(\<lambda>s. (Inr (), s)), (\<lambda>s. (Inl (Error ''slow''), s)),
      (\<lambda>s. (Inl (Error ''fast''), s)), (\<lambda>s::nat. (Inr (), s))]"
  have m: "map_reset ?ls ''test-user'' (0::nat) = ((None, ?ps), 2)"
    by (simp add: createMockStrategy_def resetFn_count_def resetFn_throw_def)
  have d: "distinct [2, 0, 3, 1::nat]" by simp
  have st: "set [2, 0, 3, 1::nat] = {..<length ?ps}" by auto
  have u: "[0..<4] = [0, 1, 2, 3]" by (simp add: upt_conv_Cons)
  have r: "ratelimit_reset ?ls ''test-user'' [2, 0, 3, 1] (0::nat) =
             (Some (Inl (Error ''fast'')), 2, 2)"
    by (simp add: ratelimit_reset_def m del: map_reset.simps)
  have r3: "ratelimit_reset
     [createMockStrategy (mock_result True 10) resetFn_count,
      createMockStrategy (mock_result True 10) resetFn_count,
      createMockStrategy (mock_result True 10) resetFn_count]
     ''test-user'' [0, 1, 2] (0::nat) = (Some (Inr ()), 3, 3)"
    by (simp add: ratelimit_reset_def createMockStrategy_def resetFn_count_def)
  from ratelimit_reset_attempts_all [OF m d st, THEN conjunct1] r u
  have "ratelimit_reset (logged_from 0 ?ls) ''test-user'' [2, 0, 3, 1] (0::nat, []) =
       (Some (Inl (Error ''fast'')), (2, [0, 1, 2, 3]), (2, [0, 1, 2, 3]))"
    by simp
  with r r3 show ?thesis by (intro conjI)
qed

text \<open>
  Claim C9 as stated fails twice. The composite reset of the failing limiter of the test
  \<^verbatim>\<open>should handle errors in strategies gracefully\<close> rejects with the limiter's own
  \<open>Error\<close>, whose name is not that of a wrapping \<^verbatim>\<open>CompositeResetFailure\<close>. And when
  the reset of the first of two limiters throws instead of returning a promise, the
  reset of the second is never called: the log holds the first limiter only and the
  counter of the second stays 0.
\<close>

theorem ratelimit_reset_unwrapped_counterexample:
  "fst (ratelimit_reset
          [createMockStrategy (mock_result True 10) (resetFn_throw ''Test error'')]
          ''test-user'' [0] (0::nat)) = Some (Inl (Error ''Test error''))
   \<and> error_name (Error ''Test error'') = ''Error''
   \<and> error_name (Error ''Test error'') \<noteq> ''CompositeResetFailure''
   \<and> ratelimit_reset
        (logged_from 0
          [createMockStrategy (mock_result True 10) (resetFn_throw_sync ''Test error''),
           createMockStrategy (mock_result True 10) resetFn_count])
        ''test-user'' [] (0::nat, []) =
      (Some (Inl (Error ''Test error'')), (0, [0]), (0, [0]))"
  by (simp add: ratelimit_reset_def createMockStrategy_def resetFn_throw_def
      resetFn_throw_sync_def logged_def)

subsection \<open>Failures of the store\<close>

text \<open>
  Claim C10, amended. When the store adapter fails with \<open>e\<close>, no operation of a limiter
  answers a result and none changes the client: the fixed-window decision and reset, the
  token-bucket decision, update and reset, and the concurrency limiter's release and
  reset reject with \<open>e\<close> itself, while the concurrency limiter's \<^verbatim>\<open>isAllowed\<close> rejects
  with \<open>e\<close> only when it is a \<^verbatim>\<open>RateLimitExceededError\<close> and otherwise with a new
  \<^verbatim>\<open>Error('Failed to check concurrency limit')\<close>.
\<close>

theorem store_failure_surfaces:
  assumes "fault r = Some e"
  shows "fixedWindow_isAllowed fw now ident r = (Inl e, r)
       \<and> fixedWindow_reset fw now ident r = (Inl e, r)
       \<and> tokenBucket_isAllowed tb now ident r = (Inl e, r)
       \<and> tokenBucket_updateTokens tb now ident amount r = (Inl e, r)
       \<and> tokenBucket_reset tb now ident r = (Inl e, r)
       \<and> concurrency_release cc ident r = (Inl e, r)
       \<and> concurrency_reset cc ident r = (Inl e, r)
       \<and> concurrency_isAllowed cc now ident r =
           (Inl (if instanceof_RateLimitExceededError e then e
                 else Error ''Failed to check concurrency limit''), r)"
  using assms
  by (simp add: fixedWindow_isAllowed_def fixedWindow_reset_def tokenBucket_isAllowed_def
      tokenBucket_updateTokens_def tokenBucket_reset_def concurrency_release_def
      concurrency_reset_def concurrency_isAllowed_def redis_eval_fault client_del_fault Let_def)

text \<open>A closed connection, met by a limiter of each kind.\<close>

theorem store_failure_surfaces_witness:
  "fixedWindow_isAllowed \<lparr>fw_maxRequests = 5, fw_windowMs = 60000, fw_prefix = ''fixed-window:''\<rparr>
      0 ''test-user'' \<lparr>fault = Some (ReplyError ''Connection is closed.''), db = Map.empty\<rparr> =
     (Inl (ReplyError ''Connection is closed.''),
      \<lparr>fault = Some (ReplyError ''Connection is closed.''), db = Map.empty\<rparr>)
   \<and> tokenBucket_updateTokens
        (new_TokenBucketStrategy 5 10000 1 FIXED None ''token-bucket:'') 0 ''test-user'' 2
        \<lparr>fault = Some (ReplyError ''Connection is closed.''), db = Map.empty\<rparr> =
     (Inl (ReplyError ''Connection is closed.''),
      \<lparr>fault = Some (ReplyError ''Connection is closed.''), db = Map.empty\<rparr>)
   \<and> concurrency_release (new_ConcurrencyStrategy 1 (Some 1000) None) ''test-user''
        \<lparr>fault = Some (ReplyError ''Connection is closed.''), db = Map.empty\<rparr> =
     (Inl (ReplyError ''Connection is closed.''),
      \<lparr>fault = Some (ReplyError ''Connection is closed.''), db = Map.empty\<rparr>)
   \<and> concurrency_isAllowed (new_ConcurrencyStrategy 1 (Some 1000) None) 0 ''test-user''
        \<lparr>fault = Some (ReplyError ''Connection is closed.''), db = Map.empty\<rparr> =
     (Inl (Error ''Failed to check concurrency limit''),
      \<lparr>fault = Some (ReplyError ''Connection is closed.''), db = Map.empty\<rparr>)"
proof -
  let ?r = "\<lparr>fault = Some (ReplyError ''Connection is closed.''), db = Map.empty\<rparr>"
  have h: "fault ?r = Some (ReplyError ''Connection is closed.'')" by simp
  from store_failure_surfaces [OF h] show ?thesis by simp
qed

text \<open>
  Claim C10 as stated fails: the concurrency limiter's \<^verbatim>\<open>isAllowed\<close> answers a
  closed connection with another error value than the one the store raised.
\<close>

theorem concurrency_isAllowed_replaces_error_counterexample:
  "fst (concurrency_isAllowed (new_ConcurrencyStrategy 1 (Some 1000) None) 0 ''test-user''
          \<lparr>fault = Some (ReplyError ''Connection is closed.''), db = Map.empty\<rparr>) =
     Inl (Error ''Failed to check concurrency limit'')
   \<and> fst (concurrency_isAllowed (new_ConcurrencyStrategy 1 (Some 1000) None) 0 ''test-user''
          \<lparr>fault = Some (ReplyError ''Connection is closed.''), db = Map.empty\<rparr>) \<noteq>
     Inl (ReplyError ''Connection is closed.'')"
  by (simp add: concurrency_isAllowed_def redis_eval_fault)

subsection \<open>Reset followed by a decision\<close>

lemma number_text_digits:
  "number_text 0 = ''0''" "number_text 1 = ''1''" "number_text 3 = ''3''"
  by (simp_all add: number_text_def nat_text.simps digit_text_def)

text \<open>
  Claim C5 at a FIXED bucket of capacity 5, interval 10 s and take rate 1 (the bucket of
  the test \<^verbatim>\<open>should reset bucket\<close>): the first decision for \<^verbatim>\<open>user1\<close> leaves 4
  tokens; the reset that follows deletes the key \<^verbatim>\<open>token-bucket:user1:0\<close>, not the key
  \<^verbatim>\<open>token-bucket:/bt/{user1}/0\<close> of the bucket, and leaves the store as it was; the
  decision after the reset leaves 3 tokens, not the 4 of a first call.
\<close>

theorem tokenBucket_fixed_reset_misses_bucket:
  "fst (tokenBucket_isAllowed
          (new_TokenBucketStrategy 5 10000 1 FIXED None ''token-bucket:'') 0 ''user1''
          \<lparr>fault = None, db = Map.empty\<rparr>) =
     Inr \<lparr>success = True, remaining = 4, reset = 10000, limit = 5,
          name = ''TokenBucketStrategy'', metadata = None\<rparr>
   \<and> tokenBucket_reset
          (new_TokenBucketStrategy 5 10000 1 FIXED None ''token-bucket:'') 0 ''user1''
          \<lparr>fault = None,
           db = [''token-bucket:/bt/{user1}/0'' \<mapsto>
                   (RHash [(''tokens'', 4), (''windowStart'', 0)], Some 10000)]\<rparr> =
     (Inr (),
      \<lparr>fault = None,
       db = [''token-bucket:/bt/{user1}/0'' \<mapsto>
               (RHash [(''tokens'', 4), (''windowStart'', 0)], Some 10000)]\<rparr>)
   \<and> fst (tokenBucket_isAllowed
          (new_TokenBucketStrategy 5 10000 1 FIXED None ''token-bucket:'') 0 ''user1''
          (snd (tokenBucket_reset
                 (new_TokenBucketStrategy 5 10000 1 FIXED None ''token-bucket:'') 0 ''user1''
                 (snd (tokenBucket_isAllowed
                         (new_TokenBucketStrategy 5 10000 1 FIXED None ''token-bucket:'')
                         0 ''user1'' \<lparr>fault = None, db = Map.empty\<rparr>))))) =
     Inr \<lparr>success = True, remaining = 3, reset = 10000, limit = 5,
          name = ''TokenBucketStrategy'', metadata = None\<rparr>"
  by (simp add: new_TokenBucketStrategy_def tokenBucket_isAllowed_def tokenBucket_reset_def
      tokenBucket_getKey_def tokenBucket_getCurrentWindow_def number_text_digits
      redis_eval_def client_del_def redis_del_def fixedWindowScript_def redis_hgetall_def
      redis_hmset_def redis_pexpire_def Let_def fun_eq_iff)

text \<open>
  In FIXED mode the key that reset deletes is never the key of the bucket: the two texts
  differ in length. So reset leaves the bucket of the current window in place.
\<close>

lemma tokenBucket_fixed_reset_key_differs:
  assumes "tb_windowType cfg = FIXED"
  shows "tb_prefix cfg @ ident @ '':'' @ number_text (tokenBucket_getCurrentWindow cfg now)
           \<noteq> tokenBucket_getKey cfg now ident"
proof
  assume "tb_prefix cfg @ ident @ '':'' @ number_text (tokenBucket_getCurrentWindow cfg now)
            = tokenBucket_getKey cfg now ident"
  then have "length (tb_prefix cfg @ ident @ '':''
               @ number_text (tokenBucket_getCurrentWindow cfg now))
             = length (tokenBucket_getKey cfg now ident)"
    by (rule arg_cong)
  with assms show False
    by (simp add: tokenBucket_getKey_def tokenBucket_getCurrentWindow_def)
qed

lemma tokenBucket_fixed_reset_keeps_bucket:
  assumes "tb_windowType cfg = FIXED"
  shows "db (snd (tokenBucket_reset cfg now ident r)) (tokenBucket_getKey cfg now ident)
           = db r (tokenBucket_getKey cfg now ident)"
  using assms tokenBucket_fixed_reset_key_differs [OF assms, of ident now]
  by (simp add: snd_tokenBucket_reset client_del_def redis_del_def split: option.splits)

text \<open>
  For the other limiters reset deletes the key the decision uses: a decision right after
  a reset answers what the first decision on an empty store answers.
\<close>

lemma fixedWindow_reset_then_decide:
  assumes "fault r = None"
  shows "fst (fixedWindow_isAllowed cfg now ident (snd (fixedWindow_reset cfg now ident r))) =
         fst (fixedWindow_isAllowed cfg now ident \<lparr>fault = None, db = Map.empty\<rparr>)"
  using assms
  by (simp add: fixedWindow_isAllowed_def fixedWindow_reset_def client_del_def redis_del_def
      redis_eval_def fixedWindow_script_def redis_incr_def Let_def)

lemma tokenBucket_sliding_reset_then_decide:
  assumes "fault r = None" and "tb_windowType cfg = SLIDING"
  shows "fst (tokenBucket_isAllowed cfg now ident (snd (tokenBucket_reset cfg now ident r))) =
         fst (tokenBucket_isAllowed cfg now ident \<lparr>fault = None, db = Map.empty\<rparr>)"
  using assms
  by (simp add: tokenBucket_isAllowed_def tokenBucket_reset_def client_del_def redis_del_def
      redis_eval_def slidingWindowScript_def redis_hgetall_def redis_hmset_def Let_def)

lemma concurrency_reset_then_decide:
  assumes "fault r = None"
  shows "fst (concurrency_isAllowed cfg now ident (snd (concurrency_reset cfg ident r))) =
         fst (concurrency_isAllowed cfg now ident \<lparr>fault = None, db = Map.empty\<rparr>)"
  using assms
  by (simp add: concurrency_isAllowed_def concurrency_reset_def client_del_def redis_del_def
      redis_eval_def concurrency_isAllowed_script_def redis_get_def redis_set_px_def Let_def)

subsection \<open>The concurrency limiter\<close>

text \<open>
  With a limit of at least 1 the slot count stays between 0 and the limit over every
  history of acquires and releases.
\<close>

lemma concurrency_isAllowed_script_slots:
  assumes "concurrency_isAllowed_script key mx timeout now d = Inr (reply, d')"
    and "1 \<le> mx" and "0 \<le> slot_count (d k)" and "slot_count (d k) \<le> mx"
  shows "0 \<le> slot_count (d' k) \<and> slot_count (d' k) \<le> mx"
  using assms
  by (auto simp: concurrency_isAllowed_script_def redis_get_def redis_set_px_def
      redis_incr_def redis_pexpire_def
      split: option.splits redis_value.splits if_splits prod.splits)

lemma concurrency_release_script_slots:
  assumes "concurrency_release_script key d = Inr (reply, d')"
    and "0 \<le> mx" and "0 \<le> slot_count (d k)" and "slot_count (d k) \<le> mx"
  shows "0 \<le> slot_count (d' k) \<and> slot_count (d' k) \<le> mx"
  using assms
  by (auto simp: concurrency_release_script_def redis_get_def redis_del_def redis_decr_def
      split: option.splits redis_value.splits if_splits prod.splits)

lemma snd_concurrency_isAllowed:
  "snd (concurrency_isAllowed cfg now ident r) =
     snd (redis_eval (concurrency_isAllowed_script (concurrency_getKey cfg ident)
            (cc_maxConcurrentRequests cfg) (cc_timeout cfg) now) r)"
  by (simp add: concurrency_isAllowed_def Let_def split: prod.splits sum.splits)

lemma snd_concurrency_release:
  "snd (concurrency_release cfg ident r) =
     snd (redis_eval (concurrency_release_script (concurrency_getKey cfg ident)) r)"
  by (simp add: concurrency_release_def Let_def split: prod.splits sum.splits)

lemma concurrency_run_slots:
  assumes "1 \<le> cc_maxConcurrentRequests cfg"
    and "0 \<le> slot_count (db r k) \<and> slot_count (db r k) \<le> cc_maxConcurrentRequests cfg"
  shows "0 \<le> slot_count (db (concurrency_run cfg ident c r) k)
       \<and> slot_count (db (concurrency_run cfg ident c r) k) \<le> cc_maxConcurrentRequests cfg"
proof (cases c)
  case (Acquire now)
  have "0 \<le> slot_count (db (snd (redis_eval (concurrency_isAllowed_script
            (concurrency_getKey cfg ident) (cc_maxConcurrentRequests cfg) (cc_timeout cfg) now)
            r)) k)
        \<and> slot_count (db (snd (redis_eval (concurrency_isAllowed_script
            (concurrency_getKey cfg ident) (cc_maxConcurrentRequests cfg) (cc_timeout cfg) now)
            r)) k) \<le> cc_maxConcurrentRequests cfg"
  proof (rule redis_eval_preserves
      [where P = "\<lambda>v. 0 \<le> slot_count v \<and> slot_count v \<le> cc_maxConcurrentRequests cfg"])
    fix reply d'
    assume "concurrency_isAllowed_script (concurrency_getKey cfg ident)
              (cc_maxConcurrentRequests cfg) (cc_timeout cfg) now (db r) = Inr (reply, d')"
    then show "0 \<le> slot_count (d' k) \<and> slot_count (d' k) \<le> cc_maxConcurrentRequests cfg"
      using assms by (intro concurrency_isAllowed_script_slots) blast+
  next
    show "0 \<le> slot_count (db r k) \<and> slot_count (db r k) \<le> cc_maxConcurrentRequests cfg"
      by fact
  qed
  with Acquire show ?thesis by (simp add: snd_concurrency_isAllowed)
next
  case Release
  have "0 \<le> slot_count (db (snd (redis_eval (concurrency_release_script
            (concurrency_getKey cfg ident)) r)) k)
        \<and> slot_count (db (snd (redis_eval (concurrency_release_script
            (concurrency_getKey cfg ident)) r)) k) \<le> cc_maxConcurrentRequests cfg"
  proof (rule redis_eval_preserves
      [where P = "\<lambda>v. 0 \<le> slot_count v \<and> slot_count v \<le> cc_maxConcurrentRequests cfg"])
    fix reply d'
    assume "concurrency_release_script (concurrency_getKey cfg ident) (db r) = Inr (reply, d')"
    then show "0 \<le> slot_count (d' k) \<and> slot_count (d' k) \<le> cc_maxConcurrentRequests cfg"
      using assms by (intro concurrency_release_script_slots) (blast, linarith, blast, blast)
  next
    show "0 \<le> slot_count (db r k) \<and> slot_count (db r k) \<le> cc_maxConcurrentRequests cfg"
      by fact
  qed
  with Release show ?thesis by (simp add: snd_concurrency_release)
qed

lemma concurrency_slots_bounded_for_positive_limit:
  assumes "1 \<le> cc_maxConcurrentRequests cfg"
    and "0 \<le> slot_count (db r k) \<and> slot_count (db r k) \<le> cc_maxConcurrentRequests cfg"
  shows "0 \<le> slot_count (db (concurrency_calls cfg ident calls r) k)
       \<and> slot_count (db (concurrency_calls cfg ident calls r) k) \<le> cc_maxConcurrentRequests cfg"
  using assms(2)
proof (induction calls arbitrary: r)
  case Nil
  then show ?case by simp
next
  case (Cons c calls)
  from concurrency_run_slots [OF assms(1) Cons.prems]
  show ?case by (simp add: Cons.IH)
qed

text \<open>
  \<^verbatim>\<open>wrap\<close>: a rejected acquire raises without calling the wrapped function; an admitted
  one runs it and then releases, whatever its outcome.
\<close>

lemma concurrency_wrap_rejected:
  assumes "concurrency_isAllowed cfg now ident r = (Inr res, r1)" and "\<not> success res"
  shows "concurrency_wrap cfg now ident fn r =
           (Inl (RateLimitExceededError
                   (''Concurrent requests limit exceeded. Current count: ''
                      @ number_text (remaining res)
                      @ '', Limit: '' @ number_text (cc_maxConcurrentRequests cfg))), r1)"
  using assms by (simp add: concurrency_wrap_def)

lemma concurrency_wrap_admitted:
  assumes "concurrency_isAllowed cfg now ident r = (Inr res, r1)" and "success res"
    and "fn r1 = (outcome, r2)"
  shows "concurrency_wrap cfg now ident fn r =
           (case concurrency_release cfg ident r2 of
              (Inl e, r3) \<Rightarrow> (Inl e, r3)
            | (Inr u, r3) \<Rightarrow> (outcome, r3))"
  using assms by (simp add: concurrency_wrap_def)

text \<open>
  Claim C7 at \<open>maxConcurrentRequests = 0\<close>: the first acquire finds no record, so the
  script sets the count to 1 and answers success with \<open>remaining = -1\<close> without
  comparing the count with the limit; the stored slot count 1 exceeds the limit 0.
\<close>

theorem concurrency_zero_limit_admits:
  "concurrency_isAllowed (new_ConcurrencyStrategy 0 (Some 1000) None) 0 ''test-user''
      \<lparr>fault = None, db = Map.empty\<rparr> =
     (Inr \<lparr>success = True, remaining = - 1, reset = 1000, limit = 0,
           name = ''ConcurrencyStrategy'', metadata = Some 1\<rparr>,
      \<lparr>fault = None,
       db = [''concurrency:/cc/{test-user}/count'' \<mapsto> (RString 1, Some 1000)]\<rparr>)
   \<and> slot_count
        (db (concurrency_calls (new_ConcurrencyStrategy 0 (Some 1000) None) ''test-user''
               [Acquire 0] \<lparr>fault = None, db = Map.empty\<rparr>)
           ''concurrency:/cc/{test-user}/count'') = 1
   \<and> cc_maxConcurrentRequests (new_ConcurrencyStrategy 0 (Some 1000) None) = 0"
  by (simp add: new_ConcurrencyStrategy_def concurrency_isAllowed_def concurrency_getKey_def
      redis_eval_def concurrency_isAllowed_script_def redis_get_def redis_set_px_def)

text \<open>
  Claim C8 at a limiter with limit 3 whose three slots are held: \<^verbatim>\<open>wrap\<close> raises
  without calling the wrapped function, and the message of the error reports
  \<^verbatim>\<open>Current count: 0\<close>, the \<open>remaining\<close> of the rejected result, while the slot count
  is 3.
\<close>

theorem concurrency_wrap_reports_remaining:
  "concurrency_wrap (new_ConcurrencyStrategy 3 (Some 1000) None) 0 ''test-user''
      (\<lambda>r. (Inr (1::nat), r))
      \<lparr>fault = None,
       db = [''concurrency:/cc/{test-user}/count'' \<mapsto> (RString 3, Some 1000)]\<rparr> =
     (Inl (RateLimitExceededError
             ''Concurrent requests limit exceeded. Current count: 0, Limit: 3''),
      \<lparr>fault = None,
       db = [''concurrency:/cc/{test-user}/count'' \<mapsto> (RString 3, Some 1000)]\<rparr>)
   \<and> slot_count
        (db \<lparr>fault = None,
             db = [''concurrency:/cc/{test-user}/count'' \<mapsto> (RString 3, Some 1000)]\<rparr>
           ''concurrency:/cc/{test-user}/count'') = 3"
  by (simp add: new_ConcurrencyStrategy_def concurrency_wrap_def concurrency_isAllowed_def
      concurrency_getKey_def redis_eval_def concurrency_isAllowed_script_def redis_get_def
      number_text_digits)

end
